theory Spec2Isabelle
  imports Main "HOL-Library.AList" "HOL-Library.Char_ord" "HOL-Library.List_Lexorder"
begin


section \<open>Python values and exceptions\<close>

text \<open>
  The plugin works on dynamically typed data: the mapping document comes out of
  \<^verbatim>\<open>json.load\<close> or \<^verbatim>\<open>yaml.safe_load\<close>, the metadata record is a host dictionary.
  A dictionary is an association list in insertion order, which is the order in which
  \<^verbatim>\<open>.items()\<close> iterates; its keys are strings (JSON object keys, metadata keys).
  A Python dictionary never holds a key twice, so the lists that stand for one have
  distinct keys. Floating point numbers do not occur in the data the plugin reads and
  are left out.
\<close>

datatype pyval =
    PNone
  | PBool bool
  | PInt int
  | PStr string
  | PList "pyval list"
  | PDict "(string \<times> pyval) list"

datatype error =
    AttributeError
  | TypeError
  | KeyError
  | ValueError string
  | IOError string
  | FileExistsError
  | FileNotFoundError
  | NotADirectoryError
  | IsADirectoryError
  | ParseError
  | NotImplementedError string
  | PostProcessingError string

text \<open>Truth value testing, as in \<^verbatim>\<open>if new_field_name:\<close>.\<close>

fun truthy :: "pyval \<Rightarrow> bool" where
  "truthy PNone = False"
| "truthy (PBool b) = b"
| "truthy (PInt i) = (i \<noteq> 0)"
| "truthy (PStr s) = (s \<noteq> [])"
| "truthy (PList xs) = (xs \<noteq> [])"
| "truthy (PDict d) = (d \<noteq> [])"

text \<open>Lists and dictionaries cannot be used as dictionary keys.\<close>

fun hashable :: "pyval \<Rightarrow> bool" where
  "hashable (PList xs) = False"
| "hashable (PDict d) = False"
| "hashable v = True"

text \<open>
  \<^verbatim>\<open>obj.get(key, default)\<close>: only a dictionary has the method (AttributeError
  otherwise); an unhashable key raises TypeError; a hashable key that is not a string
  is not among the string keys, so the default comes back.
\<close>

fun py_get :: "pyval \<Rightarrow> pyval \<Rightarrow> pyval \<Rightarrow> error + pyval" where
  "py_get (PDict d) (PStr k) dflt = (case map_of d k of Some v \<Rightarrow> Inr v | None \<Rightarrow> Inr dflt)"
| "py_get (PDict d) key dflt = (if hashable key then Inr dflt else Inl TypeError)"
| "py_get obj key dflt = Inl AttributeError"

text \<open>\<^verbatim>\<open>obj.items()\<close>.\<close>

fun py_items :: "pyval \<Rightarrow> error + (string \<times> pyval) list" where
  "py_items (PDict d) = Inr d"
| "py_items obj = Inl AttributeError"

section \<open>Lookup engine\<close>

text \<open>
  \<^verbatim>\<open>find_field\<close>: the loop over \<^verbatim>\<open>category_dict.get("field", {}).items()\<close>, leaving
  at the first field whose mapping gives a truthy value for the channel.
\<close>

fun find_field_loop :: "pyval \<Rightarrow> (string \<times> pyval) list \<Rightarrow> error + (string \<times> pyval)" where
  "find_field_loop original_channel [] = Inr ('''', PStr '''')"
| "find_field_loop original_channel ((field, field_data) # rest) =
     (case py_get field_data original_channel (PStr '''') of
        Inl e \<Rightarrow> Inl e
      | Inr new_field_name \<Rightarrow>
          if truthy new_field_name then Inr (field, new_field_name)
          else find_field_loop original_channel rest)"

definition find_field :: "pyval \<Rightarrow> pyval \<Rightarrow> error + (string \<times> pyval)" where
  "find_field original_channel category_dict =
     (case py_get category_dict (PStr ''field'') (PDict []) of
        Inl e \<Rightarrow> Inl e
      | Inr fields \<Rightarrow>
          (case py_items fields of
             Inl e \<Rightarrow> Inl e
           | Inr its \<Rightarrow> find_field_loop original_channel its))"

text \<open>
  \<^verbatim>\<open>find_category\<close>: the loop over \<^verbatim>\<open>self._mapping.items()\<close>; the document is
  the first argument here.
\<close>

fun find_category_loop ::
  "pyval \<Rightarrow> pyval \<Rightarrow> (string \<times> pyval) list \<Rightarrow> error + (pyval \<times> string \<times> pyval)" where
  "find_category_loop original_channel dflt [] = Inr (PDict [], '''', dflt)"
| "find_category_loop original_channel dflt ((category, category_data) # rest) =
     (case find_field original_channel category_data of
        Inl e \<Rightarrow> Inl e
      | Inr (field, new_field_name) \<Rightarrow>
          if truthy new_field_name then Inr (category_data, field, new_field_name)
          else find_category_loop original_channel dflt rest)"

definition find_category :: "pyval \<Rightarrow> pyval \<Rightarrow> pyval \<Rightarrow> error + (pyval \<times> string \<times> pyval)" where
  "find_category mapping original_channel dflt =
     (case py_items mapping of
        Inl e \<Rightarrow> Inl e
      | Inr its \<Rightarrow> find_category_loop original_channel dflt its)"

subsection \<open>The shape of a mapping document\<close>

text \<open>
  The data model of the specification: a document maps category names to category
  entries; an entry has optional directory strings \<^verbatim>\<open>home\<close> and \<^verbatim>\<open>temp\<close> and an
  optional \<^verbatim>\<open>field\<close> mapping from field names to mappings from original values to
  mapped values, which are strings.
\<close>

fun is_str :: "pyval \<Rightarrow> bool" where
  "is_str (PStr s) = True"
| "is_str v = False"

fun is_value_map :: "pyval \<Rightarrow> bool" where
  "is_value_map (PDict d) = list_all (\<lambda>kv. is_str (snd kv)) d"
| "is_value_map v = False"

fun is_field_map :: "pyval \<Rightarrow> bool" where
  "is_field_map (PDict fs) = list_all (\<lambda>kv. is_value_map (snd kv)) fs"
| "is_field_map v = False"

definition opt_all :: "('a \<Rightarrow> bool) \<Rightarrow> 'a option \<Rightarrow> bool" where
  "opt_all P x = (case x of None \<Rightarrow> True | Some y \<Rightarrow> P y)"

fun is_category :: "pyval \<Rightarrow> bool" where
  "is_category (PDict c) =
     (opt_all is_str (map_of c ''home'') \<and> opt_all is_str (map_of c ''temp'')
      \<and> opt_all is_field_map (map_of c ''field''))"
| "is_category v = False"

fun is_mapping_document :: "pyval \<Rightarrow> bool" where
  "is_mapping_document (PDict cs) = list_all (\<lambda>kv. is_category (snd kv)) cs"
| "is_mapping_document v = False"

subsection \<open>The lookup as the specification words it\<close>

text \<open>
  The categories of a document and the field entries of a category, in declaration
  order; the hit of one inner mapping for a value (the mapped value when the value is a
  key with a non-empty mapped value); and all hits of a document in search order.
\<close>

fun categories :: "pyval \<Rightarrow> (string \<times> pyval) list" where
  "categories (PDict cs) = cs"
| "categories v = []"

fun category_fields :: "pyval \<Rightarrow> (string \<times> pyval) list" where
  "category_fields (PDict c) = (case map_of c ''field'' of Some (PDict fs) \<Rightarrow> fs | _ \<Rightarrow> [])"
| "category_fields v = []"

fun hit :: "pyval \<Rightarrow> pyval \<Rightarrow> pyval list" where
  "hit (PDict d) (PStr k) = (case map_of d k of Some w \<Rightarrow> (if truthy w then [w] else []) | None \<Rightarrow> [])"
| "hit fd v = []"

definition field_matches :: "pyval \<Rightarrow> pyval \<Rightarrow> (string \<times> pyval) list" where
  "field_matches category_data v =
     concat (map (\<lambda>(f, fd). map (\<lambda>w. (f, w)) (hit fd v)) (category_fields category_data))"

definition all_matches :: "pyval \<Rightarrow> pyval \<Rightarrow> (pyval \<times> string \<times> pyval) list" where
  "all_matches doc v =
     concat (map (\<lambda>(c, cd). map (\<lambda>(f, w). (cd, f, w)) (field_matches cd v)) (categories doc))"

definition first_match :: "pyval \<Rightarrow> pyval \<Rightarrow> pyval \<Rightarrow> pyval \<times> string \<times> pyval" where
  "first_match doc v dflt = (case all_matches doc v of [] \<Rightarrow> (PDict [], '''', dflt) | m # ms \<Rightarrow> m)"

section \<open>Paths and the file system\<close>

text \<open>
  The plugin reaches the file system through \<^verbatim>\<open>os.path.exists\<close>, \<^verbatim>\<open>os.path.dirname\<close>,
  \<^verbatim>\<open>os.path.splitext\<close>, \<^verbatim>\<open>os.path.realpath\<close>, \<^verbatim>\<open>os.makedirs\<close> and \<^verbatim>\<open>open\<close>. The
  model is a POSIX tree without symbolic links and without permissions: a node is a
  directory or a regular file, addressed by the list of its components below the root;
  the root is always a directory. The working directory is the string that
  \<^verbatim>\<open>os.getcwd\<close> returns. What a configuration file holds is the document a loader reads
  out of it (\<open>None\<close> when the text does not parse).
\<close>

type_synonym path = "string list"

datatype node = Dir | File "pyval option"

record filesystem =
  cwd :: string
  nodes :: "path \<rightharpoonup> node"

definition node_in :: "(path \<rightharpoonup> node) \<Rightarrow> path \<Rightarrow> node option" where
  "node_in ns p = (if p = [] then Some Dir else ns p)"

definition node_at :: "filesystem \<Rightarrow> path \<Rightarrow> node option" where
  "node_at fs p = node_in (nodes fs) p"

text \<open>\<^verbatim>\<open>p.split('/')\<close>.\<close>

fun split_sep :: "string \<Rightarrow> string list" where
  "split_sep [] = [[]]"
| "split_sep (c # cs) =
     (if c = CHR ''/'' then [] # split_sep cs
      else (case split_sep cs of
              name # names \<Rightarrow> (c # name) # names
            | [] \<Rightarrow> [[c]]))"

definition isabs :: "string \<Rightarrow> bool" where
  "isabs p = (case p of [] \<Rightarrow> False | c # cs \<Rightarrow> c = CHR ''/'')"

subsection \<open>Lexical normalisation\<close>

text \<open>
  \<^verbatim>\<open>os.path.abspath\<close>: the name is joined to the working directory unless it is
  absolute, and normalised without looking at the tree: empty components and \<^verbatim>\<open>.\<close>
  are dropped, \<^verbatim>\<open>..\<close> removes the component before it. The result is given by its
  components; \<open>render\<close> writes them as a string.
\<close>

definition norm_step :: "path \<Rightarrow> string \<Rightarrow> path" where
  "norm_step acc name =
     (if name = [] \<or> name = ''.'' then acc
      else if name = ''..'' then butlast acc
      else acc @ [name])"

definition resolve :: "string \<Rightarrow> string \<Rightarrow> path" where
  "resolve wd p = foldl norm_step [] (split_sep (if isabs p then p else wd @ ''/'' @ p))"

definition render :: "path \<Rightarrow> string" where
  "render p = (if p = [] then ''/'' else concat (map (\<lambda>name. CHR ''/'' # name) p))"

text \<open>
  \<^verbatim>\<open>os.path.realpath\<close>: without symbolic links, the absolute normalised path. Only a
  string is a path.
\<close>

definition os_path_realpath :: "filesystem \<Rightarrow> pyval \<Rightarrow> error + string" where
  "os_path_realpath fs v =
     (case v of PStr p \<Rightarrow> Inr (render (resolve (cwd fs) p)) | _ \<Rightarrow> Inl TypeError)"

text \<open>
  \<^verbatim>\<open>os.path.split\<close>: the head is everything up to the last slash, without trailing
  slashes unless it consists of slashes only; the tail is what follows the last slash.
  \<^verbatim>\<open>os.path.dirname\<close> is the head.
\<close>

definition os_path_dirname :: "string \<Rightarrow> string" where
  "os_path_dirname p =
     (let head = rev (dropWhile (\<lambda>c. c \<noteq> CHR ''/'') (rev p))
      in if head \<noteq> [] \<and> list_ex (\<lambda>c. c \<noteq> CHR ''/'') head
         then rev (dropWhile (\<lambda>c. c = CHR ''/'') (rev head))
         else head)"

definition os_path_basename :: "string \<Rightarrow> string" where
  "os_path_basename p = rev (takeWhile (\<lambda>c. c \<noteq> CHR ''/'') (rev p))"

text \<open>
  \<^verbatim>\<open>os.path.splitext(p)[1]\<close>: from the last dot of the last component on, unless only
  dots stand before it in that component.
\<close>

definition splitext_ext :: "string \<Rightarrow> string" where
  "splitext_ext p =
     (let base = rev (takeWhile (\<lambda>c. c \<noteq> CHR ''/'') (rev p));
          ext = rev (takeWhile (\<lambda>c. c \<noteq> CHR ''.'') (rev base));
          stem = rev (drop (Suc (length ext)) (rev base))
      in if CHR ''.'' \<in> set base \<and> list_ex (\<lambda>c. c \<noteq> CHR ''.'') stem
         then CHR ''.'' # ext else [])"

text \<open>\<^verbatim>\<open>str.lower\<close> on the ASCII letters.\<close>

definition lower_char :: "char \<Rightarrow> char" where
  "lower_char c =
     (let n = (of_char c :: nat) in if 65 \<le> n \<and> n \<le> 90 then char_of (n + 32) else c)"

definition lower :: "string \<Rightarrow> string" where
  "lower s = map lower_char s"

subsection \<open>System calls on the tree\<close>

text \<open>
  The lookup of a name by the system walks the tree component by component from the
  root (for an absolute name) or from the working directory: every step needs a
  directory to stand on, an empty component and \<^verbatim>\<open>.\<close> stay, \<^verbatim>\<open>..\<close> goes to the
  parent, a name goes to the child of that name, which must exist.
\<close>

fun walk :: "(path \<rightharpoonup> node) \<Rightarrow> string list \<Rightarrow> path \<Rightarrow> error + path" where
  "walk ns [] cur = Inr cur"
| "walk ns (c # cs) cur =
     (case node_in ns cur of
        None \<Rightarrow> Inl FileNotFoundError
      | Some (File d) \<Rightarrow> Inl NotADirectoryError
      | Some Dir \<Rightarrow>
          if c = [] \<or> c = ''.'' then walk ns cs cur
          else if c = ''..'' then walk ns cs (butlast cur)
          else (case ns (cur @ [c]) of
                  None \<Rightarrow> Inl FileNotFoundError
                | Some n \<Rightarrow> walk ns cs (cur @ [c])))"

definition start_dir :: "filesystem \<Rightarrow> string \<Rightarrow> path" where
  "start_dir fs name = (if isabs name then [] else resolve (cwd fs) [])"

text \<open>\<^verbatim>\<open>os.stat\<close>: the node a name leads to. The empty name leads nowhere.\<close>

definition os_stat :: "filesystem \<Rightarrow> string \<Rightarrow> error + node" where
  "os_stat fs name =
     (if name = [] then Inl FileNotFoundError
      else (case walk (nodes fs) (split_sep name) (start_dir fs name) of
              Inl e \<Rightarrow> Inl e
            | Inr p \<Rightarrow> (case node_at fs p of None \<Rightarrow> Inl FileNotFoundError | Some n \<Rightarrow> Inr n)))"

text \<open>\<^verbatim>\<open>os.path.exists\<close> and \<^verbatim>\<open>os.path.isdir\<close>: false when \<^verbatim>\<open>os.stat\<close> raises.\<close>

definition os_path_exists :: "filesystem \<Rightarrow> string \<Rightarrow> bool" where
  "os_path_exists fs name = (case os_stat fs name of Inl e \<Rightarrow> False | Inr n \<Rightarrow> True)"

definition os_path_isdir :: "filesystem \<Rightarrow> string \<Rightarrow> bool" where
  "os_path_isdir fs name = (os_stat fs name = Inr Dir)"

definition strip_trailing :: "string list \<Rightarrow> string list" where
  "strip_trailing comps = rev (dropWhile (\<lambda>c. c = []) (rev comps))"

text \<open>
  \<^verbatim>\<open>os.mkdir\<close>: trailing slashes do not count; the parent must be a directory that
  the walk reaches; the directory itself must not be there, and \<^verbatim>\<open>.\<close> and \<^verbatim>\<open>..\<close>
  always are.
\<close>

definition os_mkdir :: "string \<Rightarrow> filesystem \<Rightarrow> error option \<times> filesystem" where
  "os_mkdir name fs =
     (if name = [] then (Some FileNotFoundError, fs)
      else let comps = strip_trailing (split_sep name) in
        if comps = [] then (Some FileExistsError, fs)
        else
          (case walk (nodes fs) (butlast comps) (start_dir fs name) of
             Inl e \<Rightarrow> (Some e, fs)
           | Inr d \<Rightarrow>
               (case node_at fs d of
                  None \<Rightarrow> (Some FileNotFoundError, fs)
                | Some (File c) \<Rightarrow> (Some NotADirectoryError, fs)
                | Some Dir \<Rightarrow>
                    if last comps = ''.'' \<or> last comps = ''..'' then (Some FileExistsError, fs)
                    else
                      (case nodes fs (d @ [last comps]) of
                         Some n \<Rightarrow> (Some FileExistsError, fs)
                       | None \<Rightarrow> (None, fs\<lparr>nodes := (nodes fs)(d @ [last comps] \<mapsto> Dir)\<rparr>)))))"

text \<open>
  The last lines of \<^verbatim>\<open>os.makedirs\<close>: \<^verbatim>\<open>mkdir(name)\<close>, whose error is dropped with
  \<^verbatim>\<open>exist_ok=True\<close> when the name is a directory.
\<close>

definition mkdir_exist_ok :: "string \<Rightarrow> filesystem \<Rightarrow> error option \<times> filesystem" where
  "mkdir_exist_ok name fs =
     (case os_mkdir name fs of
        (None, fs1) \<Rightarrow> (None, fs1)
      | (Some e, fs1) \<Rightarrow> if os_path_isdir fs1 name then (None, fs1) else (Some e, fs1))"

text \<open>
  The head and the tail that \<^verbatim>\<open>os.makedirs\<close> works with: those of
  \<^verbatim>\<open>os.path.split(name)\<close>, or those of the split of that head when the tail is empty.
\<close>

definition makedirs_head :: "string \<Rightarrow> string" where
  "makedirs_head name =
     (if os_path_basename name = [] then os_path_dirname (os_path_dirname name)
      else os_path_dirname name)"

definition makedirs_tail :: "string \<Rightarrow> string" where
  "makedirs_tail name =
     (if os_path_basename name = [] then os_path_basename (os_path_dirname name)
      else os_path_basename name)"

lemma dirname_length: "length (os_path_dirname p) \<le> length p"
proof -
  have "length (dropWhile P xs) \<le> length xs" for P and xs :: string
    by (induction xs) simp_all
  note shorter = this
  have "length (os_path_dirname p) \<le> length (dropWhile (\<lambda>c. c \<noteq> CHR ''/'') (rev p))"
    using shorter [of "\<lambda>c. c = CHR ''/''" "rev (rev (dropWhile (\<lambda>c. c \<noteq> CHR ''/'') (rev p)))"]
    by (simp add: os_path_dirname_def Let_def)
  also have "\<dots> \<le> length p"
    using shorter [of "\<lambda>c. c \<noteq> CHR ''/''" "rev p"] by simp
  finally show ?thesis .
qed

lemma dirname_shorter:
  assumes "os_path_basename p \<noteq> []"
  shows "length (os_path_dirname p) < length p"
proof -
  have shorter: "length (dropWhile P xs) \<le> length xs" for P and xs :: string
    by (induction xs) simp_all
  have "length (takeWhile (\<lambda>c. c \<noteq> CHR ''/'') (rev p)) + length (dropWhile (\<lambda>c. c \<noteq> CHR ''/'') (rev p))
          = length p"
    using length_append [of "takeWhile (\<lambda>c. c \<noteq> CHR ''/'') (rev p)" "dropWhile (\<lambda>c. c \<noteq> CHR ''/'') (rev p)"]
    by simp
  moreover from assms have "0 < length (takeWhile (\<lambda>c. c \<noteq> CHR ''/'') (rev p))"
    by (simp add: os_path_basename_def)
  moreover have "length (os_path_dirname p) \<le> length (dropWhile (\<lambda>c. c \<noteq> CHR ''/'') (rev p))"
    using shorter [of "\<lambda>c. c = CHR ''/''" "rev (rev (dropWhile (\<lambda>c. c \<noteq> CHR ''/'') (rev p)))"]
    by (simp add: os_path_dirname_def Let_def)
  ultimately show ?thesis by linarith
qed

lemma makedirs_head_shorter:
  "makedirs_tail name \<noteq> [] \<Longrightarrow> length (makedirs_head name) < length name"
  using dirname_shorter [of name] dirname_shorter [of "os_path_dirname name"] dirname_length [of name]
  by (auto simp: makedirs_head_def makedirs_tail_def split: if_splits)

text \<open>
  \<^verbatim>\<open>os.makedirs(name, exist_ok=True)\<close>, as the library has it: when the head does
  not exist it is made first, by the same function; a FileExistsError of that call is
  dropped, any other error leaves; when the tail is \<^verbatim>\<open>.\<close> the work is done; then
  comes \<^verbatim>\<open>mkdir(name)\<close>. The directories made before an error stay.
\<close>

function os_makedirs :: "string \<Rightarrow> filesystem \<Rightarrow> error option \<times> filesystem" where
  "os_makedirs name fs =
     (if makedirs_tail name \<noteq> [] \<and> makedirs_head name \<noteq> [] \<and> \<not> os_path_exists fs (makedirs_head name)
      then
        (case os_makedirs (makedirs_head name) fs of
           (Some e, fs1) \<Rightarrow>
             if e = FileExistsError
             then (if makedirs_tail name = ''.'' then (None, fs1) else mkdir_exist_ok name fs1)
             else (Some e, fs1)
         | (None, fs1) \<Rightarrow>
             if makedirs_tail name = ''.'' then (None, fs1) else mkdir_exist_ok name fs1)
      else mkdir_exist_ok name fs)"
  by pat_completeness auto
termination
  by (relation "measure (\<lambda>(name, fs). length name)") (auto simp: makedirs_head_shorter)

declare os_makedirs.simps [simp del]

subsection \<open>Directories by their components\<close>

text \<open>
  On a normalised absolute name, as \<^verbatim>\<open>os.path.realpath\<close> returns it,
  \<^verbatim>\<open>os.makedirs\<close> amounts to a walk over the ancestors of the directory from the root
  down that makes the missing ones. A regular file in the way stops it: FileExistsError
  when it stands at the directory itself, NotADirectoryError when it stands at an
  ancestor.
\<close>

fun mkdirs :: "path list \<Rightarrow> (path \<rightharpoonup> node) \<Rightarrow> error option \<times> (path \<rightharpoonup> node)" where
  "mkdirs [] ns = (None, ns)"
| "mkdirs (d # ds) ns =
     (case ns d of
        Some Dir \<Rightarrow> mkdirs ds ns
      | Some (File c) \<Rightarrow> (Some (if ds = [] then FileExistsError else NotADirectoryError), ns)
      | None \<Rightarrow> mkdirs ds (ns(d \<mapsto> Dir)))"

definition ancestors :: "path \<Rightarrow> path list" where
  "ancestors p = map (\<lambda>n. take n p) [1..<Suc (length p)]"

text \<open>
  A directory is there when the path and all its ancestors are directories.
\<close>

definition directory_exists :: "filesystem \<Rightarrow> string \<Rightarrow> bool" where
  "directory_exists fs name =
     (name \<noteq> [] \<and> list_all (\<lambda>a. nodes fs a = Some Dir) (ancestors (resolve (cwd fs) name)))"

text \<open>A component that names a child: not empty, not \<^verbatim>\<open>.\<close>, not \<^verbatim>\<open>..\<close>, without a slash.\<close>

definition proper :: "string \<Rightarrow> bool" where
  "proper c = (c \<noteq> [] \<and> c \<noteq> ''.'' \<and> c \<noteq> ''..'' \<and> CHR ''/'' \<notin> set c)"

subsection \<open>Files\<close>

text \<open>
  \<^verbatim>\<open>open(file_path, "w")\<close> followed by a dump of a document: the system walks to the
  parent, which must be a directory; a name with a trailing slash, \<^verbatim>\<open>.\<close>, \<^verbatim>\<open>..\<close> or
  an existing directory cannot be opened for writing; an existing file is overwritten.
\<close>

definition write_file :: "string \<Rightarrow> pyval \<Rightarrow> filesystem \<Rightarrow> error option \<times> filesystem" where
  "write_file name doc fs =
     (if name = [] then (Some FileNotFoundError, fs)
      else let comps = strip_trailing (split_sep name) in
        if comps = [] then (Some IsADirectoryError, fs)
        else
          (case walk (nodes fs) (butlast comps) (start_dir fs name) of
             Inl e \<Rightarrow> (Some e, fs)
           | Inr d \<Rightarrow>
               (case node_at fs d of
                  None \<Rightarrow> (Some FileNotFoundError, fs)
                | Some (File c) \<Rightarrow> (Some NotADirectoryError, fs)
                | Some Dir \<Rightarrow>
                    if comps \<noteq> split_sep name \<or> last comps = ''.'' \<or> last comps = ''..''
                    then (Some IsADirectoryError, fs)
                    else
                      (case nodes fs (d @ [last comps]) of
                         Some Dir \<Rightarrow> (Some IsADirectoryError, fs)
                       | _ \<Rightarrow> (None, fs\<lparr>nodes := (nodes fs)(d @ [last comps] \<mapsto> File (Some doc))\<rparr>)))))"

text \<open>\<^verbatim>\<open>open(file_path, "r")\<close> followed by a load.\<close>

definition read_file :: "string \<Rightarrow> filesystem \<Rightarrow> error + pyval" where
  "read_file name fs =
     (case os_stat fs name of
        Inl e \<Rightarrow> Inl e
      | Inr Dir \<Rightarrow> Inl IsADirectoryError
      | Inr (File None) \<Rightarrow> Inl ParseError
      | Inr (File (Some doc)) \<Rightarrow> Inr doc)"

text \<open>
  \<^verbatim>\<open>yaml.dump\<close> writes the keys of every mapping in sorted order (its default
  \<^verbatim>\<open>sort_keys=True\<close>), so what \<^verbatim>\<open>yaml.safe_load\<close> reads back has that order;
  \<^verbatim>\<open>json.dump\<close> keeps the order. Two documents are equal as Python values when they
  agree up to the order of keys.
\<close>

fun sort_keys :: "pyval \<Rightarrow> pyval" where
  "sort_keys (PDict d) = PDict (sort_key fst (map (\<lambda>(k, v). (k, sort_keys v)) d))"
| "sort_keys (PList xs) = PList (map sort_keys xs)"
| "sort_keys v = v"

definition py_eq :: "pyval \<Rightarrow> pyval \<Rightarrow> bool" where
  "py_eq a b = (sort_keys a = sort_keys b)"


section \<open>The host and the plugin instance\<close>

text \<open>
  One store holds what the methods of \<^verbatim>\<open>ChannelMappingPP\<close> read and write: the host's
  parameter store (\<^verbatim>\<open>outtmpl.default\<close>, \<^verbatim>\<open>paths\<close>, \<^verbatim>\<open>postprocessors\<close>), the
  post-processors added through \<^verbatim>\<open>add_post_processor\<close>, what was printed, the file
  system, whether the YAML engine could be imported, the attributes \<^verbatim>\<open>_mapping\<close> and
  \<^verbatim>\<open>mapped_fields\<close> of the instance, and the metadata record \<^verbatim>\<open>information\<close>
  that a call receives. The record is passed by reference and updated in place,
  so it lives in the store: what a method returns as the record is the store's
  \<open>information\<close> after the call, also when the call raises.

  \<^verbatim>\<open>_post_cleanup(self.mapped_fields)\<close> closes over the list object itself, which
  is only ever appended to; a scheduled cleanup step therefore sees the instance's
  \<open>mapped_fields\<close> as they are when it runs.
\<close>

datatype ConfigTypeEnum = JSON | YAML

datatype message =
    ReportWarning string
  | ToScreen pyval pyval

datatype post_processor = PostCleanupPP

record world =
  outtmpl_default :: "string option"
  paths :: "string \<rightharpoonup> string"
  postprocessors :: "(string \<times> string) list list"
  added_pps :: "(post_processor \<times> string) list"
  screen :: "message list"
  files :: filesystem
  yaml_available :: bool
  mapping :: pyval
  mapped_fields :: "string list"
  information :: "(string \<times> pyval) list"

text \<open>The name under which the plugin is registered: \<^verbatim>\<open>self.__class__.__name__[:-2]\<close>.\<close>

definition this_class_name :: string where
  "this_class_name = ''ChannelMapping''"

definition MAPPING_CONFIG_TEMPLATE :: pyval where
  "MAPPING_CONFIG_TEMPLATE =
     PDict [
       (''uncategorized'', PDict [
          (''field'', PDict [
             (''channel'', PDict [
                (''MIT OpenCourseWare'', PStr ''OCW - MIT''),
                (''<CHANNEL NAME>'', PStr ''<NEW CHANNEL NAME>'')]),
             (''<FIELD NAME>'', PDict [])])]),
       (''<CATEGORY>'', PDict [
          (''home'', PStr ''<TARGET LOCATION>''),
          (''temp'', PStr ''<TEMP LOCATION>''),
          (''field'', PDict [
             (''<FIELD NAME>'', PDict [
                (''<ORIGINAL FIELD VALUE>'', PStr ''<NEW FIELD VALUE>'')])])])]"

subsection \<open>Configuration loader\<close>

definition check_config_type :: "bool \<Rightarrow> string \<Rightarrow> error + ConfigTypeEnum" where
  "check_config_type yaml config_path =
     (let ext = lower (splitext_ext config_path)
      in if ext \<in> set [''.json''] then Inr JSON
         else if ext \<in> set [''.yaml'', ''.yml''] \<and> yaml then Inr YAML
         else Inl (ValueError (''Unsupported file type: '' @ ext)))"

text \<open>What a dump of a document leaves in the file, as the loader of that type reads it.\<close>

definition dumped :: "ConfigTypeEnum \<Rightarrow> pyval \<Rightarrow> pyval" where
  "dumped file_type doc = (case file_type of JSON \<Rightarrow> doc | YAML \<Rightarrow> sort_keys doc)"

definition save_file :: "pyval \<Rightarrow> string \<Rightarrow> ConfigTypeEnum \<Rightarrow> filesystem \<Rightarrow> error option \<times> filesystem" where
  "save_file doc file_path file_type fsys = write_file file_path (dumped file_type doc) fsys"

definition load_file :: "string \<Rightarrow> ConfigTypeEnum \<Rightarrow> filesystem \<Rightarrow> error + pyval" where
  "load_file file_path file_type fsys = read_file file_path fsys"

text \<open>
  \<^verbatim>\<open>write_mapping_template\<close>: an error of \<^verbatim>\<open>os.makedirs\<close> leaves as it is; whatever
  \<^verbatim>\<open>check_config_type\<close> or \<^verbatim>\<open>_save_file\<close> raise becomes an IOError with the path.
\<close>

definition write_mapping_template :: "string \<Rightarrow> world \<Rightarrow> error option \<times> world" where
  "write_mapping_template config_path w =
     (case os_makedirs (os_path_dirname config_path) (files w) of
        (Some e, fs1) \<Rightarrow> (Some e, w\<lparr>files := fs1\<rparr>)
      | (None, fs1) \<Rightarrow>
          (case check_config_type (yaml_available w) config_path of
             Inl e \<Rightarrow> (Some (IOError (''Can't write mapping file: '' @ config_path)), w\<lparr>files := fs1\<rparr>)
           | Inr file_type \<Rightarrow>
               (case save_file MAPPING_CONFIG_TEMPLATE config_path file_type fs1 of
                  (Some e, fs2) \<Rightarrow>
                    (Some (IOError (''Can't write mapping file: '' @ config_path)), w\<lparr>files := fs2\<rparr>)
                | (None, fs2) \<Rightarrow>
                    (None, w\<lparr>files := fs2,
                              screen := screen w @
                                [ReportWarning (''Mapping file not found. Created a template mapping file at: ''
                                                @ config_path)]\<rparr>))))"

definition load_mapping :: "string \<Rightarrow> world \<Rightarrow> (error + pyval) \<times> world" where
  "load_mapping config_path w =
     (case (if \<not> os_path_exists (files w) config_path then write_mapping_template config_path w
            else (None, w)) of
        (Some e, w1) \<Rightarrow> (Inl e, w1)
      | (None, w1) \<Rightarrow>
          (case check_config_type (yaml_available w1) config_path of
             Inl e \<Rightarrow> (Inl e, w1)
           | Inr file_type \<Rightarrow> (load_file config_path file_type (files w1), w1)))"

subsection \<open>Gate, path rewriter and mapping\<close>

fun starts_with :: "string \<Rightarrow> string \<Rightarrow> bool" where
  "starts_with [] s = True"
| "starts_with (c # cs) [] = False"
| "starts_with (c # cs) (d # ds) = (c = d \<and> starts_with cs ds)"

text \<open>The substring test \<^verbatim>\<open>needle in s\<close>.\<close>

fun contains :: "string \<Rightarrow> string \<Rightarrow> bool" where
  "contains needle [] = (needle = [])"
| "contains needle (c # cs) = (starts_with needle (c # cs) \<or> contains needle cs)"

text \<open>
  \<^verbatim>\<open>is_mapping_used\<close>: \<^verbatim>\<open>traverse_obj\<close> gives the empty string when the host has no
  default output template.
\<close>

definition is_mapping_used :: "world \<Rightarrow> bool" where
  "is_mapping_used w =
     (let file_template = (case outtmpl_default w of None \<Rightarrow> [] | Some t \<Rightarrow> t)
      in contains ''%(mapped_channel)s'' file_template)"

definition change_path :: "pyval \<Rightarrow> string \<Rightarrow> world \<Rightarrow> (error + unit) \<times> world" where
  "change_path category dir_type w =
     (case py_get category (PStr dir_type) (PStr []) of
        Inl e \<Rightarrow> (Inl e, w)
      | Inr new_location \<Rightarrow>
          if \<not> truthy new_location then (Inr (), w)
          else
            (case os_path_realpath (files w) new_location of
               Inl e \<Rightarrow> (Inl e, w)
             | Inr location \<Rightarrow>
                 (case os_makedirs location (files w) of
                    (Some e, fs1) \<Rightarrow> (Inl e, w\<lparr>files := fs1\<rparr>)
                  | (None, fs1) \<Rightarrow>
                      (Inr (), w\<lparr>files := fs1, paths := (paths w)(dir_type \<mapsto> location)\<rparr>))))"

definition mapped_field_name :: "string \<Rightarrow> string" where
  "mapped_field_name field = ''mapped_'' @ (if field \<noteq> [] then field else ''channel'')"

text \<open>
  \<^verbatim>\<open>mapping_before_download\<close>. The notice printed by \<^verbatim>\<open>to_screen\<close> is kept as its
  two values, the original and the new channel name.
\<close>

definition mapping_before_download :: "world \<Rightarrow> (error + string list) \<times> world" where
  "mapping_before_download w =
     (case py_get (PDict (information w)) (PStr ''channel'') (PStr []) of
        Inl e \<Rightarrow> (Inl e, w)
      | Inr original_channel \<Rightarrow>
          (case find_category (mapping w) original_channel original_channel of
             Inl e \<Rightarrow> (Inl e, w)
           | Inr (category, field, new_channel_name) \<Rightarrow>
               (case change_path category ''home'' w of
                  (Inl e, w1) \<Rightarrow> (Inl e, w1)
                | (Inr u, w1) \<Rightarrow>
                    (case change_path category ''temp'' w1 of
                       (Inl e, w2) \<Rightarrow> (Inl e, w2)
                     | (Inr u, w2) \<Rightarrow>
                         (Inr [],
                          w2\<lparr>screen := screen w2 @ [ToScreen original_channel new_channel_name],
                             information :=
                               AList.update (mapped_field_name field) new_channel_name (information w2),
                             mapped_fields := mapped_fields w2 @ [mapped_field_name field]\<rparr>)))))"

definition not_implemented_message :: string where
  \<open>not_implemented_message =
     ''Not implemented yet. Consider set '' @ this_class_name @
     '' at "pre_process" instead ("pre_process", "after_filter" and "video" are tested working) e.g. '' @
     ''--use-postprocessor "'' @ this_class_name @ '':when=pre_process"''\<close>

definition mapping_after_download :: "world \<Rightarrow> (error + string list) \<times> world" where
  "mapping_after_download w = (Inl (NotImplementedError not_implemented_message), w)"

definition unimplemented_message :: string where
  \<open>unimplemented_message =
     ''Not implemented yet. Consider set '' @ this_class_name @
     '' at "pre_process" instead ("after_filter" and "video" are tested working) e.g. '' @
     ''--use-postprocessor "'' @ this_class_name @ '':when=pre_process"''\<close>

text \<open>\<^verbatim>\<open>information.get("filepath", False)\<close> is tested for its truth value.\<close>

definition main_processing :: "world \<Rightarrow> (error + string list) \<times> world" where
  "main_processing w =
     (case py_get (PDict (information w)) (PStr ''filepath'') (PBool False) of
        Inl e \<Rightarrow> (Inl e, w)
      | Inr filepath \<Rightarrow>
          if \<not> truthy filepath then mapping_before_download w
          else
            (case mapping_after_download w of
               (Inl (NotImplementedError m), w1) \<Rightarrow> (Inl (PostProcessingError unimplemented_message), w1)
             | r \<Rightarrow> r))"

subsection \<open>Lifecycle guard\<close>

text \<open>
  The loop of \<^verbatim>\<open>check_pp_position\<close> that locates the plugin's entry: the index of the
  first descriptor whose \<^verbatim>\<open>key\<close> is the plugin's name, or \<open>-1\<close>.
\<close>

fun locate :: "(string \<times> string) list list \<Rightarrow> nat \<Rightarrow> int" where
  "locate [] i = - 1"
| "locate (pp # rest) i =
     (if map_of pp ''key'' = Some this_class_name then int i else locate rest (Suc i))"

definition supported_pp_positions :: "string list" where
  "supported_pp_positions = [''pre_process'', ''after_filter'', ''video'']"

text \<open>\<^verbatim>\<open>', '.join(xs)\<close>.\<close>

fun join_comma :: "string list \<Rightarrow> string" where
  "join_comma [] = []"
| "join_comma [x] = x"
| "join_comma (x # y # ys) = x @ '', '' @ join_comma (y # ys)"

definition invalid_when_message :: "string \<Rightarrow> string" where
  \<open>invalid_when_message pp_exec_position =
     ''Invalid "when" value "'' @ pp_exec_position @ ''" for post-processor "'' @ this_class_name @
     ''" (should be: '' @ join_comma supported_pp_positions @ '')''\<close>

definition check_pp_position :: "world \<Rightarrow> error + unit" where
  "check_pp_position w =
     (let pp_list = postprocessors w;
          pp_position = locate pp_list 0;
          pp_exec_info = (if pp_position \<ge> 0 then pp_list ! nat pp_position else []);
          pp_exec_position = (case map_of pp_exec_info ''when'' of None \<Rightarrow> ''post_process'' | Some s \<Rightarrow> s)
      in if pp_exec_position \<notin> set supported_pp_positions
         then Inl (ValueError (invalid_when_message pp_exec_position))
         else Inr ())"

subsection \<open>Top-level run and cleanup\<close>

definition add_post_processor :: "post_processor \<Rightarrow> string \<Rightarrow> world \<Rightarrow> world" where
  "add_post_processor pp when w = w\<lparr>added_pps := added_pps w @ [(pp, when)]\<rparr>"

text \<open>
  \<^verbatim>\<open>run\<close>: the gate stands before the \<^verbatim>\<open>try\<close>; inside it every exception of
  \<^verbatim>\<open>check_pp_position\<close> and \<^verbatim>\<open>main_processing\<close> is caught and dropped, and the
  \<^verbatim>\<open>finally\<close> clause adds the cleanup step. The record returned is the store's
  \<open>information\<close>.
\<close>

definition run :: "world \<Rightarrow> (error + string list) \<times> world" where
  "run w =
     (if \<not> is_mapping_used w then (Inr [], w)
      else
        (case (case check_pp_position w of
                 Inl e \<Rightarrow> (Inl e, w)
               | Inr u \<Rightarrow> main_processing w) of
           (Inl e, w1) \<Rightarrow> (Inr [], add_post_processor PostCleanupPP ''after_video'' w1)
         | (Inr deletable, w1) \<Rightarrow> (Inr deletable, add_post_processor PostCleanupPP ''after_video'' w1)))"

text \<open>
  \<^verbatim>\<open>PostCleanupPP.run\<close>: \<^verbatim>\<open>information.pop(key, None)\<close> for every key of the list the
  step was created with.
\<close>

definition post_cleanup_run :: "string list \<Rightarrow> (string \<times> pyval) list \<Rightarrow> string list \<times> (string \<times> pyval) list" where
  "post_cleanup_run keys info = ([], fold AList.delete keys info)"

text \<open>The host running a step it was given; the cleanup step reads the shared list.\<close>

fun run_pp :: "post_processor \<Rightarrow> world \<Rightarrow> string list \<times> world" where
  "run_pp PostCleanupPP w =
     (case post_cleanup_run (mapped_fields w) (information w) of
        (deletable, info) \<Rightarrow> (deletable, w\<lparr>information := info\<rparr>))"

subsection \<open>The lifecycle guard as the specification words it\<close>

text \<open>
  The declared stage of the plugin: the \<^verbatim>\<open>when\<close> of the first registration
  descriptor whose key is the plugin's, \<^verbatim>\<open>post_process\<close> when there is none or when
  the descriptor names no stage.
\<close>

definition registered_stage :: "(string \<times> string) list list \<Rightarrow> string" where
  "registered_stage pps =
     (case find (\<lambda>pp. map_of pp ''key'' = Some this_class_name) pps of
        None \<Rightarrow> ''post_process''
      | Some pp \<Rightarrow> (case map_of pp ''when'' of None \<Rightarrow> ''post_process'' | Some s \<Rightarrow> s))"

text \<open>The channel name that \<^verbatim>\<open>mapping_before_download\<close> reads from a record.\<close>

definition original_channel_of :: "(string \<times> pyval) list \<Rightarrow> pyval" where
  "original_channel_of info = (case map_of info ''channel'' of None \<Rightarrow> PStr [] | Some c \<Rightarrow> c)"


section \<open>Example data\<close>

definition two_category_document :: pyval where
  "two_category_document =
     PDict [(''first'', PDict [(''home'', PStr ''/media/first''),
                              (''field'', PDict [(''title'', PDict []),
                                                 (''channel'', PDict [(''X'', PStr ''A'')])])]),
            (''second'', PDict [(''field'', PDict [(''channel'', PDict [(''X'', PStr ''B''),
                                                                        (''Y'', PStr [])])])])]"

definition first_category :: pyval where
  "first_category =
     PDict [(''home'', PStr ''/media/first''),
            (''field'', PDict [(''title'', PDict []),
                               (''channel'', PDict [(''X'', PStr ''A'')])])]"

definition media_files :: filesystem where
  "media_files =
     \<lparr>cwd = ''/work'',
      nodes = [[''work''] \<mapsto> Dir, [''media''] \<mapsto> Dir, [''media'', ''first''] \<mapsto> Dir]\<rparr>"

definition example_host :: world where
  "example_host =
     \<lparr>outtmpl_default = Some ''%(mapped_channel)s/%(title)s.%(ext)s'',
      paths = Map.empty,
      postprocessors = [[(''key'', ''FFmpegMetadata'')],
                        [(''key'', ''ChannelMapping''), (''when'', ''pre_process'')]],
      added_pps = [],
      screen = [],
      files = media_files,
      yaml_available = False,
      mapping = two_category_document,
      mapped_fields = [],
      information = [(''channel'', PStr ''X''), (''other'', PInt 1)]\<rparr>"

definition plain_host :: world where
  "plain_host = example_host\<lparr>outtmpl_default := Some ''%(title)s.%(ext)s''\<rparr>"

definition unregistered_host :: world where
  "unregistered_host = example_host\<lparr>postprocessors := [[(''key'', ''FFmpegMetadata'')]]\<rparr>"

definition empty_filepath_host :: world where
  "empty_filepath_host = example_host\<lparr>information := [(''channel'', PStr ''Y''), (''filepath'', PStr [])]\<rparr>"

definition transferred_host :: world where
  "transferred_host =
     example_host\<lparr>information := [(''channel'', PStr ''X''), (''filepath'', PStr ''/media/x.mp4'')]\<rparr>"

definition blocked_host :: world where
  "blocked_host =
     example_host\<lparr>files := \<lparr>cwd = ''/work'',
                             nodes = [[''work''] \<mapsto> Dir, [''media''] \<mapsto> File None]\<rparr>\<rparr>"

definition unknown_channel_host :: world where
  "unknown_channel_host = example_host\<lparr>information := [(''channel'', PStr ''Y''), (''other'', PInt 1)]\<rparr>"

definition yaml_host :: world where
  "yaml_host = example_host\<lparr>yaml_available := True\<rparr>"

definition sorted_template :: pyval where
  "sorted_template =
     PDict [
       (''<CATEGORY>'', PDict [
          (''field'', PDict [
             (''<FIELD NAME>'', PDict [
                (''<ORIGINAL FIELD VALUE>'', PStr ''<NEW FIELD VALUE>'')])]),
          (''home'', PStr ''<TARGET LOCATION>''),
          (''temp'', PStr ''<TEMP LOCATION>'')]),
       (''uncategorized'', PDict [
          (''field'', PDict [
             (''<FIELD NAME>'', PDict []),
             (''channel'', PDict [
                (''<CHANNEL NAME>'', PStr ''<NEW CHANNEL NAME>''),
                (''MIT OpenCourseWare'', PStr ''OCW - MIT'')])])])]"

definition detour_files :: filesystem where
  "detour_files =
     \<lparr>cwd = ''/work'',
      nodes = [[''work''] \<mapsto> Dir, [''d''] \<mapsto> Dir, [''d'', ''m.json''] \<mapsto> Dir]\<rparr>"

definition detour_host :: world where
  "detour_host = example_host\<lparr>files := detour_files\<rparr>"

definition sub_file_files :: filesystem where
  "sub_file_files =
     \<lparr>cwd = ''/work'', nodes = [[''work''] \<mapsto> Dir, [''work'', ''sub''] \<mapsto> File None]\<rparr>"

section \<open>Properties of the lookup engine\<close>

lemma find_field_loop_matches:
  assumes "list_all (\<lambda>kv. is_value_map (snd kv)) fs" and "hashable v"
  shows "find_field_loop v fs =
         Inr (case concat (map (\<lambda>(f, fd). map (\<lambda>w. (f, w)) (hit fd v)) fs) of
                [] \<Rightarrow> ('''', PStr '''') | m # ms \<Rightarrow> m)"
  using assms
proof (induction fs)
  case Nil
  then show ?case by simp
next
  case (Cons p fs)
  obtain f fd where p: "p = (f, fd)" by (cases p)
  from Cons.prems p obtain d where fd: "fd = PDict d"
    by (cases fd) simp_all
  show ?case
  proof (cases v)
    case (PStr k)
    show ?thesis
    proof (cases "map_of d k")
      case None
      with Cons p fd PStr show ?thesis by simp
    next
      case (Some w)
      with Cons p fd PStr show ?thesis by simp
    qed
  qed (use Cons p fd in simp_all)
qed

lemma find_field_matches:
  assumes "is_category cd" and "hashable v"
  shows "find_field v cd =
         Inr (case field_matches cd v of [] \<Rightarrow> ('''', PStr '''') | m # ms \<Rightarrow> m)"
proof -
  from assms(1) obtain c where cd: "cd = PDict c"
    by (cases cd) simp_all
  show ?thesis
  proof (cases "map_of c ''field''")
    case None
    with cd show ?thesis
      by (simp add: find_field_def field_matches_def)
  next
    case (Some fm)
    with assms(1) cd have "is_field_map fm"
      by (simp add: opt_all_def)
    then obtain fs where fm: "fm = PDict fs" and fs: "list_all (\<lambda>kv. is_value_map (snd kv)) fs"
      by (cases fm) simp_all
    from find_field_loop_matches [OF fs assms(2)] cd Some fm show ?thesis
      by (simp add: find_field_def field_matches_def)
  qed
qed

lemma hit_truthy: "w \<in> set (hit fd v) \<Longrightarrow> truthy w"
  by (induction fd v rule: hit.induct) (auto split: option.splits if_splits)

lemma field_matches_truthy:
  "(f, w) \<in> set (field_matches cd v) \<Longrightarrow> truthy w"
  by (auto simp: field_matches_def dest: hit_truthy)

lemma find_category_loop_matches:
  assumes "list_all (\<lambda>kv. is_category (snd kv)) cs" and "hashable v"
  shows "find_category_loop v dflt cs =
         Inr (case concat (map (\<lambda>(c, cd). map (\<lambda>(f, w). (cd, f, w)) (field_matches cd v)) cs) of
                [] \<Rightarrow> (PDict [], '''', dflt) | m # ms \<Rightarrow> m)"
  using assms
proof (induction cs)
  case Nil
  then show ?case by simp
next
  case (Cons p cs)
  obtain c cd where p: "p = (c, cd)" by (cases p)
  from Cons.prems p have cat: "is_category cd" by simp
  note ff = find_field_matches [OF cat Cons.prems(2)]
  show ?case
  proof (cases "field_matches cd v")
    case Nil
    with Cons p ff show ?thesis by simp
  next
    case (Cons m ms)
    obtain f w where m: "m = (f, w)" by (cases m)
    with Cons have "(f, w) \<in> set (field_matches cd v)" by simp
    then have "truthy w" by (rule field_matches_truthy)
    with Cons m p ff show ?thesis by simp
  qed
qed

text \<open>
  C2: on a document of the specified shape, \<^verbatim>\<open>find_category\<close> returns the first hit
  in search order, categories in declaration order and the fields of each category in
  declaration order, and the default triple when there is no hit. Hence when two
  categories map the same value, the first-declared one is returned with its entry and
  field name.
\<close>

theorem find_category_first_match:
  assumes "is_mapping_document doc" and "hashable v"
  shows "find_category doc v dflt = Inr (first_match doc v dflt)"
proof -
  from assms(1) obtain cs where doc: "doc = PDict cs" and cs: "list_all (\<lambda>kv. is_category (snd kv)) cs"
    by (cases doc) simp_all
  from find_category_loop_matches [OF cs assms(2)] doc show ?thesis
    by (simp add: find_category_def first_match_def all_matches_def)
qed

theorem find_category_first_match_witness:
  "is_mapping_document two_category_document \<and> hashable (PStr ''X'')
   \<and> find_category two_category_document (PStr ''X'') (PStr ''X'') =
       Inr (PDict [(''home'', PStr ''/media/first''),
                   (''field'', PDict [(''title'', PDict []),
                                      (''channel'', PDict [(''X'', PStr ''A'')])])],
            ''channel'', PStr ''A'')"
proof -
  have shape: "is_mapping_document two_category_document"
    by (simp add: two_category_document_def opt_all_def)
  have key: "hashable (PStr ''X'')" by simp
  from find_category_first_match [OF shape key, of "PStr ''X''"] shape show ?thesis
    by (simp add: first_match_def all_matches_def field_matches_def two_category_document_def)
qed

lemma concat_map_empty: "(\<forall>x \<in> set xs. f x = []) \<Longrightarrow> concat (map f xs) = []"
  by (induction xs) simp_all

lemma find_category_miss:
  assumes "is_mapping_document doc" and "hashable v" and "all_matches doc v = []"
  shows "find_category doc v dflt = Inr (PDict [], [], dflt)"
proof -
  from assms(1) obtain cs where doc: "doc = PDict cs" and cs: "list_all (\<lambda>kv. is_category (snd kv)) cs"
    by (cases doc) simp_all
  from assms(3) doc
  have none: "concat (map (\<lambda>(c, cd). map (\<lambda>(f, w). (cd, f, w)) (field_matches cd v)) cs) = []"
    by (simp only: all_matches_def categories.simps)
  have "find_category_loop v dflt cs = Inr (PDict [], [], dflt)"
    using find_category_loop_matches [OF cs assms(2), of dflt] unfolding none by simp
  with doc show ?thesis
    by (simp add: find_category_def)
qed

text \<open>
  C1: on a document of the specified shape, a value that no field mapping of any
  category maps to a non-empty value is passed through: \<^verbatim>\<open>find_category(v, default=v)\<close>
  returns (it does not raise) the empty category, the empty field name and \<^verbatim>\<open>v\<close>.
\<close>

theorem find_category_pass_through:
  assumes "is_mapping_document doc" and "hashable v"
    and "\<forall>(c, cd) \<in> set (categories doc). \<forall>(f, fd) \<in> set (category_fields cd). hit fd v = []"
  shows "find_category doc v v = Inr (PDict [], [], v)"
proof -
  have "field_matches cd v = []" if "(c, cd) \<in> set (categories doc)" for c cd
    unfolding field_matches_def
    by (rule concat_map_empty) (use assms(3) that in fastforce)
  then have "all_matches doc v = []"
    unfolding all_matches_def by (intro concat_map_empty) auto
  with assms(1,2) show ?thesis
    by (rule find_category_miss)
qed

theorem find_category_pass_through_witness:
  "is_mapping_document two_category_document \<and> hashable (PStr ''Y'')
   \<and> all_matches two_category_document (PStr ''Y'') = []
   \<and> find_category two_category_document (PStr ''Y'') (PStr ''Y'') = Inr (PDict [], [], PStr ''Y'')"
proof -
  have shape: "is_mapping_document two_category_document"
    by (simp add: two_category_document_def opt_all_def)
  have key: "hashable (PStr ''Y'')" by simp
  have miss: "\<forall>(c, cd) \<in> set (categories two_category_document).
                \<forall>(f, fd) \<in> set (category_fields cd). hit fd (PStr ''Y'') = []"
    by (simp add: two_category_document_def)
  have none: "all_matches two_category_document (PStr ''Y'') = []"
    by (simp add: all_matches_def field_matches_def two_category_document_def)
  from find_category_pass_through [OF shape key miss] shape none show ?thesis
    by simp
qed

lemma template_is_mapping_document: "is_mapping_document MAPPING_CONFIG_TEMPLATE"
  by (simp add: MAPPING_CONFIG_TEMPLATE_def opt_all_def)

section \<open>Normalised names and the walk of the tree\<close>

lemma split_sep_nonempty: "split_sep s \<noteq> []"
  by (induction s) (simp_all split: list.splits)

lemma split_sep_plain: "CHR ''/'' \<notin> set b \<Longrightarrow> split_sep b = [b]"
  by (induction b) auto

lemma split_sep_append: "split_sep (a @ CHR ''/'' # b) = split_sep a @ split_sep b"
proof (induction a)
  case Nil
  then show ?case by simp
next
  case (Cons c a)
  obtain name names where "split_sep a = name # names"
    using split_sep_nonempty [of a] by (cases "split_sep a") auto
  with Cons show ?case by simp
qed

lemma split_sep_no_slash: "c \<in> set (split_sep s) \<Longrightarrow> CHR ''/'' \<notin> set c"
proof (induction s arbitrary: c)
  case Nil
  then show ?case by simp
next
  case (Cons x s)
  obtain name names where sp: "split_sep s = name # names"
    using split_sep_nonempty [of s] by (cases "split_sep s") auto
  show ?case
  proof (cases "x = CHR ''/''")
    case True
    with Cons show ?thesis by auto
  next
    case False
    with Cons.prems sp have "c = x # name \<or> c \<in> set names" by simp
    with Cons.IH sp False show ?thesis by auto
  qed
qed

lemma norm_step_proper:
  "list_all proper acc \<Longrightarrow> CHR ''/'' \<notin> set c \<Longrightarrow> list_all proper (norm_step acc c)"
  by (auto simp: norm_step_def proper_def list_all_iff dest: in_set_butlastD)

lemma foldl_norm_step_proper:
  "list_all proper acc \<Longrightarrow> \<forall>c \<in> set cs. CHR ''/'' \<notin> set c \<Longrightarrow> list_all proper (foldl norm_step acc cs)"
  by (induction cs arbitrary: acc) (simp_all add: norm_step_proper)

lemma resolve_proper: "list_all proper (resolve wd p)"
  unfolding resolve_def
  by (rule foldl_norm_step_proper) (auto dest: split_sep_no_slash)

lemma split_sep_components:
  "list_all proper q \<Longrightarrow> CHR ''/'' \<notin> set c
   \<Longrightarrow> split_sep (c @ concat (map (\<lambda>name. CHR ''/'' # name) q)) = c # q"
proof (induction q arbitrary: c)
  case Nil
  then show ?case by (simp add: split_sep_plain)
next
  case (Cons d q)
  from Cons.prems have q: "list_all proper q" by simp
  from Cons.prems have "proper d" by simp
  then have d: "CHR ''/'' \<notin> set d" by (simp add: proper_def)
  have "split_sep (c @ CHR ''/'' # (d @ concat (map (\<lambda>name. CHR ''/'' # name) q)))
        = split_sep c @ split_sep (d @ concat (map (\<lambda>name. CHR ''/'' # name) q))"
    by (rule split_sep_append)
  with Cons.IH [OF q d] Cons.prems(2) show ?case
    by (simp add: split_sep_plain)
qed

lemma split_sep_render: "list_all proper p \<Longrightarrow> split_sep (render p) = [] # (if p = [] then [[]] else p)"
proof (cases p)
  case Nil
  then show ?thesis by (simp add: render_def)
next
  case (Cons c q)
  assume "list_all proper p"
  with Cons have q: "list_all proper q" and "proper c" by simp_all
  then have c: "CHR ''/'' \<notin> set c" by (simp add: proper_def)
  from split_sep_components [OF q c] Cons show ?thesis
    by (simp add: render_def)
qed

lemma foldl_norm_step_append: "list_all proper p \<Longrightarrow> foldl norm_step acc p = acc @ p"
  by (induction p arbitrary: acc) (simp_all add: norm_step_def proper_def)

lemma isabs_render: "isabs (render p)"
  by (cases p) (simp_all add: isabs_def render_def)

lemma render_nonempty: "render p \<noteq> []"
  by (cases p) (simp_all add: render_def)

lemma resolve_render: "list_all proper p \<Longrightarrow> resolve wd (render p) = p"
  by (cases "p = []")
     (simp_all add: resolve_def isabs_render split_sep_render norm_step_def foldl_norm_step_append)

lemma render_snoc:
  "render (q @ [c]) = (if q = [] then [] else render q) @ CHR ''/'' # c"
  by (simp add: render_def)

lemma render_last_char:
  assumes "list_all proper q" and "q \<noteq> []"
  shows "\<exists>s x. render q = s @ [x] \<and> x \<noteq> CHR ''/''"
proof -
  from assms(2) obtain q' c where q: "q = q' @ [c]"
    by (cases q rule: rev_cases) auto
  with assms(1) have "proper c" by simp
  then have "c \<noteq> []" and "CHR ''/'' \<notin> set c"
    by (simp_all add: proper_def)
  then obtain c' x where c: "c = c' @ [x]" and "x \<noteq> CHR ''/''"
    by (cases c rule: rev_cases) auto
  with q show ?thesis
    by (intro exI [of _ "(if q' = [] then [] else render q') @ CHR ''/'' # c'"] exI [of _ x])
       (simp add: render_snoc)
qed

lemma basename_render:
  assumes "list_all proper (q @ [c])"
  shows "os_path_basename (render (q @ [c])) = c"
proof -
  from assms have "proper c" by simp
  then have "CHR ''/'' \<notin> set c" by (simp add: proper_def)
  then have "takeWhile (\<lambda>x. x \<noteq> CHR ''/'') (rev c @ CHR ''/'' # t) = rev c" for t
    by (simp add: takeWhile_append)
  then show ?thesis
    by (simp add: os_path_basename_def render_snoc)
qed

lemma dirname_render:
  assumes "list_all proper (q @ [c])"
  shows "os_path_dirname (render (q @ [c])) = render q"
proof -
  from assms have q: "list_all proper q" and "proper c" by simp_all
  then have c: "CHR ''/'' \<notin> set c" by (simp add: proper_def)
  define pre where "pre = (if q = [] then [] else render q)"
  from c have head: "rev (dropWhile (\<lambda>x. x \<noteq> CHR ''/'') (rev (pre @ CHR ''/'' # c))) = pre @ [CHR ''/'']"
    by (simp add: dropWhile_append)
  show ?thesis
  proof (cases "q = []")
    case True
    with head show ?thesis
      unfolding os_path_dirname_def Let_def render_snoc pre_def [symmetric]
      by (simp add: pre_def render_def)
  next
    case False
    from render_last_char [OF q False] obtain s x where r: "render q = s @ [x]" and x: "x \<noteq> CHR ''/''"
      by blast
    from False r have pre: "pre = s @ [x]" by (simp add: pre_def)
    from x have "list_ex (\<lambda>c. c \<noteq> CHR ''/'') (pre @ [CHR ''/''])"
      by (auto simp: pre list_ex_iff)
    moreover from x have "rev (dropWhile (\<lambda>c. c = CHR ''/'') (rev (pre @ [CHR ''/'']))) = pre"
      by (simp add: pre)
    ultimately show ?thesis
      unfolding os_path_dirname_def Let_def render_snoc pre_def [symmetric] head
      using False by (simp add: pre_def)
  qed
qed

lemma makedirs_split_render:
  assumes "list_all proper (q @ [c])"
  shows "makedirs_head (render (q @ [c])) = render q" and "makedirs_tail (render (q @ [c])) = c"
proof -
  from assms have "proper c" by simp
  then have "c \<noteq> []" by (simp add: proper_def)
  then show "makedirs_head (render (q @ [c])) = render q" and "makedirs_tail (render (q @ [c])) = c"
    by (simp_all add: makedirs_head_def makedirs_tail_def basename_render [OF assms] dirname_render [OF assms])
qed

lemma walk_append:
  "walk ns (xs @ ys) cur = (case walk ns xs cur of Inl e \<Rightarrow> Inl e | Inr m \<Rightarrow> walk ns ys m)"
  by (induction xs arbitrary: cur) (simp_all split: option.splits node.splits)

lemma walk_from_root: "walk ns ([] # cs) [] = walk ns cs []"
  by (simp add: node_in_def)

lemma walk_proper:
  "proper c \<Longrightarrow> walk ns [c] cur =
     (case node_in ns cur of
        None \<Rightarrow> Inl FileNotFoundError
      | Some (File d) \<Rightarrow> Inl NotADirectoryError
      | Some Dir \<Rightarrow> (case ns (cur @ [c]) of None \<Rightarrow> Inl FileNotFoundError | Some n \<Rightarrow> Inr (cur @ [c])))"
  by (simp add: proper_def split: option.splits node.splits)

lemma walk_result: "list_all proper q \<Longrightarrow> walk ns q cur = Inr r \<Longrightarrow> r = cur @ q"
proof (induction q arbitrary: cur)
  case Nil
  then show ?case by simp
next
  case (Cons c q)
  from Cons.prems(1) have c: "proper c" and q: "list_all proper q" by simp_all
  from c Cons.prems(2) have "walk ns q (cur @ [c]) = Inr r"
    by (simp add: proper_def split: option.splits node.splits)
  from Cons.IH [OF q this] show ?case by simp
qed

lemma ancestors_snoc: "ancestors (q @ [c]) = ancestors q @ [q @ [c]]"
  by (auto simp: ancestors_def)

lemma ancestors_Nil: "ancestors [] = []"
  by (simp add: ancestors_def)

text \<open>A walk down a normalised path arrives at a directory exactly when all ancestors are directories.\<close>

lemma walk_directories:
  assumes "list_all proper q"
  shows "(walk ns q [] = Inr q \<and> node_in ns q = Some Dir) \<longleftrightarrow> list_all (\<lambda>a. ns a = Some Dir) (ancestors q)"
  using assms
proof (induction q rule: rev_induct)
  case Nil
  then show ?case by (simp add: node_in_def ancestors_Nil)
next
  case (snoc c q)
  from snoc.prems have c: "proper c" and q: "list_all proper q" by simp_all
  note IH = snoc.IH [OF q]
  show ?case
  proof
    assume a: "walk ns (q @ [c]) [] = Inr (q @ [c]) \<and> node_in ns (q @ [c]) = Some Dir"
    then obtain m where m: "walk ns q [] = Inr m" and step: "walk ns [c] m = Inr (q @ [c])"
      by (auto simp: walk_append split: sum.splits)
    from walk_result [OF q m] have "m = q" by simp
    with step c have "node_in ns q = Some Dir"
      by (auto simp: walk_proper simp del: walk.simps split: option.splits node.splits)
    with m \<open>m = q\<close> IH have "list_all (\<lambda>a. ns a = Some Dir) (ancestors q)" by simp
    moreover from a have "ns (q @ [c]) = Some Dir" by (simp add: node_in_def)
    ultimately show "list_all (\<lambda>a. ns a = Some Dir) (ancestors (q @ [c]))"
      by (simp add: ancestors_snoc)
  next
    assume "list_all (\<lambda>a. ns a = Some Dir) (ancestors (q @ [c]))"
    then have anc: "list_all (\<lambda>a. ns a = Some Dir) (ancestors q)" and this_dir: "ns (q @ [c]) = Some Dir"
      by (simp_all add: ancestors_snoc)
    with IH have "walk ns q [] = Inr q" and "node_in ns q = Some Dir" by simp_all
    with this_dir c show "walk ns (q @ [c]) [] = Inr (q @ [c]) \<and> node_in ns (q @ [c]) = Some Dir"
      by (simp add: walk_append walk_proper node_in_def del: walk.simps)
  qed
qed

lemma walk_to_file:
  assumes "list_all proper q" and "q \<noteq> []"
    and "list_all (\<lambda>a. ns a = Some Dir) (ancestors (butlast q))" and "ns q = Some n"
  shows "walk ns q [] = Inr q"
proof -
  from assms(2) obtain q' c where q: "q = q' @ [c]"
    by (cases q rule: rev_cases) auto
  with assms(1) have c: "proper c" and q': "list_all proper q'" by simp_all
  from assms(3) q walk_directories [OF q', of ns]
  have "walk ns q' [] = Inr q'" and "node_in ns q' = Some Dir" by simp_all
  with assms(4) q c show ?thesis
    by (simp add: walk_append walk_proper del: walk.simps)
qed

lemma stat_render:
  assumes "list_all proper q"
  shows "os_stat fs (render q) =
     (case walk (nodes fs) q [] of
        Inl e \<Rightarrow> Inl e
      | Inr p \<Rightarrow> (case node_at fs p of None \<Rightarrow> Inl FileNotFoundError | Some n \<Rightarrow> Inr n))"
proof (cases "q = []")
  case True
  then show ?thesis
    by (simp add: os_stat_def render_def start_dir_def isabs_def node_in_def)
next
  case False
  with assms show ?thesis
    by (simp add: os_stat_def render_nonempty start_dir_def isabs_render split_sep_render walk_from_root
        del: walk.simps)
qed

subsection \<open>The walk that makes directories\<close>

lemma mkdirs_keeps: "mkdirs ds ns = (r, ns') \<Longrightarrow> ns p = Some n \<Longrightarrow> ns' p = Some n"
proof (induction ds arbitrary: ns)
  case Nil
  then show ?case by simp
next
  case (Cons d ds)
  show ?case
  proof (cases "ns d")
    case None
    with Cons.prems have "mkdirs ds (ns(d \<mapsto> Dir)) = (r, ns')" by simp
    moreover from None Cons.prems have "(ns(d \<mapsto> Dir)) p = Some n" by auto
    ultimately show ?thesis by (rule Cons.IH)
  next
    case (Some m)
    with Cons show ?thesis by (cases m) (auto split: if_splits)
  qed
qed

lemma mkdirs_idem: "mkdirs ds (snd (mkdirs ds ns)) = mkdirs ds ns"
proof (induction ds arbitrary: ns)
  case Nil
  then show ?case by simp
next
  case (Cons d ds)
  show ?case
  proof (cases "ns d")
    case None
    obtain r ns' where res: "mkdirs ds (ns(d \<mapsto> Dir)) = (r, ns')" by (cases "mkdirs ds (ns(d \<mapsto> Dir))")
    then have "ns' d = Some Dir" by (rule mkdirs_keeps) simp
    moreover have "mkdirs ds ns' = (r, ns')"
      using Cons.IH [of "ns(d \<mapsto> Dir)"] unfolding res by simp
    ultimately show ?thesis using None res by simp
  next
    case (Some m)
    show ?thesis
    proof (cases m)
      case Dir
      obtain r ns' where res: "mkdirs ds ns = (r, ns')" by (cases "mkdirs ds ns")
      then have "ns' d = Some Dir" by (rule mkdirs_keeps) (use Some Dir in simp)
      moreover have "mkdirs ds ns' = (r, ns')"
        using Cons.IH [of ns] unfolding res by simp
      ultimately show ?thesis using Some Dir res by simp
    next
      case (File c)
      with Some show ?thesis by simp
    qed
  qed
qed

lemma mkdirs_present: "list_all (\<lambda>a. ns a = Some Dir) ds \<Longrightarrow> mkdirs ds ns = (None, ns)"
  by (induction ds) simp_all

lemma mkdirs_success: "mkdirs ds ns = (None, ns') \<Longrightarrow> list_all (\<lambda>a. ns' a = Some Dir) ds"
proof (induction ds arbitrary: ns)
  case Nil
  then show ?case by simp
next
  case (Cons d ds)
  show ?case
  proof (cases "ns d")
    case None
    with Cons.prems have rest: "mkdirs ds (ns(d \<mapsto> Dir)) = (None, ns')" by simp
    then have "ns' d = Some Dir" by (rule mkdirs_keeps) simp
    with Cons.IH [OF rest] show ?thesis by simp
  next
    case (Some m)
    show ?thesis
    proof (cases m)
      case Dir
      with Some Cons.prems have rest: "mkdirs ds ns = (None, ns')" by simp
      then have "ns' d = Some Dir" by (rule mkdirs_keeps) (use Some Dir in simp)
      with Cons.IH [OF rest] show ?thesis by simp
    next
      case (File c)
      with Some Cons.prems show ?thesis by simp
    qed
  qed
qed

lemma mkdirs_snoc:
  "mkdirs (xs @ [d]) ns =
     (case mkdirs xs ns of
        (None, ns1) \<Rightarrow> mkdirs [d] ns1
      | (Some e, ns1) \<Rightarrow> (Some NotADirectoryError, ns1))"
proof (induction xs arbitrary: ns)
  case Nil
  then show ?case by simp
next
  case (Cons x xs)
  show ?case
  proof (cases "ns x")
    case None
    then have "mkdirs ((x # xs) @ [d]) ns = mkdirs (xs @ [d]) (ns(x \<mapsto> Dir))"
      and "mkdirs (x # xs) ns = mkdirs xs (ns(x \<mapsto> Dir))"
      by simp_all
    then show ?thesis by (simp only: Cons.IH)
  next
    case (Some m)
    show ?thesis
    proof (cases m)
      case Dir
      with Some have "mkdirs ((x # xs) @ [d]) ns = mkdirs (xs @ [d]) ns"
        and "mkdirs (x # xs) ns = mkdirs xs ns"
        by simp_all
      then show ?thesis by (simp only: Cons.IH)
    next
      case (File c)
      with Some show ?thesis by simp
    qed
  qed
qed

lemma mkdirs_errors: "mkdirs xs ns = (Some e, ns1) \<Longrightarrow> e = FileExistsError \<or> e = NotADirectoryError"
proof (induction xs arbitrary: ns)
  case Nil
  then show ?case by simp
next
  case (Cons x xs)
  show ?case
  proof (cases "ns x")
    case None
    with Cons.prems have "mkdirs xs (ns(x \<mapsto> Dir)) = (Some e, ns1)" by simp
    then show ?thesis by (rule Cons.IH)
  next
    case (Some m)
    with Cons show ?thesis by (cases m) (auto split: if_splits)
  qed
qed

lemma mkdirs_file_exists:
  "mkdirs xs ns = (Some FileExistsError, ns1)
   \<Longrightarrow> xs \<noteq> [] \<and> (\<exists>d. ns1 (last xs) = Some (File d)) \<and> list_all (\<lambda>a. ns1 a = Some Dir) (butlast xs)"
proof (induction xs arbitrary: ns)
  case Nil
  then show ?case by simp
next
  case (Cons x xs)
  show ?case
  proof (cases "ns x")
    case None
    with Cons.prems have rest: "mkdirs xs (ns(x \<mapsto> Dir)) = (Some FileExistsError, ns1)" by simp
    then have "ns1 x = Some Dir" by (rule mkdirs_keeps) simp
    with Cons.IH [OF rest] show ?thesis by simp
  next
    case (Some m)
    show ?thesis
    proof (cases m)
      case Dir
      with Some Cons.prems have rest: "mkdirs xs ns = (Some FileExistsError, ns1)" by simp
      then have "ns1 x = Some Dir" by (rule mkdirs_keeps) (use Some Dir in simp)
      with Cons.IH [OF rest] show ?thesis by simp
    next
      case (File c)
      with Some Cons.prems show ?thesis by (simp split: if_splits)
    qed
  qed
qed

lemma strip_trailing_snoc: "c \<noteq> [] \<Longrightarrow> strip_trailing (xs @ [c]) = xs @ [c]"
  by (simp add: strip_trailing_def)

lemma comps_render_snoc:
  assumes "list_all proper (q @ [c])"
  shows "strip_trailing (split_sep (render (q @ [c]))) = ([] # q) @ [c]"
    and "split_sep (render (q @ [c])) = ([] # q) @ [c]"
proof -
  from assms have "proper c" by simp
  then have c: "c \<noteq> []" by (simp add: proper_def)
  from split_sep_render [OF assms] show sp: "split_sep (render (q @ [c])) = ([] # q) @ [c]"
    by simp
  from strip_trailing_snoc [OF c, of "[] # q"] sp
  show "strip_trailing (split_sep (render (q @ [c]))) = ([] # q) @ [c]" by simp
qed

lemma mkdir_render:
  assumes p: "list_all proper (q @ [c])" and up: "walk (nodes fs) q [] = Inr q"
  shows "os_mkdir (render (q @ [c])) fs =
     (case node_at fs q of
        None \<Rightarrow> (Some FileNotFoundError, fs)
      | Some (File d) \<Rightarrow> (Some NotADirectoryError, fs)
      | Some Dir \<Rightarrow>
          (case nodes fs (q @ [c]) of
             Some n \<Rightarrow> (Some FileExistsError, fs)
           | None \<Rightarrow> (None, fs\<lparr>nodes := (nodes fs)(q @ [c] \<mapsto> Dir)\<rparr>)))"
proof -
  from p have "proper c" by simp
  then have c: "c \<noteq> ''.''" "c \<noteq> ''..''" by (simp_all add: proper_def)
  have comps: "strip_trailing (split_sep (render (q @ [c]))) = ([] # q) @ [c]"
    by (rule comps_render_snoc [OF p])
  have "walk (nodes fs) ([] # q) [] = Inr q"
    using up by (simp only: walk_from_root)
  moreover have "last (([] # q) @ [c]) = c" and "butlast (([] # q) @ [c]) = [] # q"
    by simp_all
  ultimately show ?thesis
    unfolding os_mkdir_def Let_def comps
    using c by (simp add: render_nonempty start_dir_def isabs_render del: walk.simps
        split: option.splits node.splits)
qed

lemma stat_render_child:
  assumes p: "list_all proper (q @ [c])" and up: "walk (nodes fs) q [] = Inr q"
  shows "os_stat fs (render (q @ [c])) =
     (case node_at fs q of
        None \<Rightarrow> Inl FileNotFoundError
      | Some (File d) \<Rightarrow> Inl NotADirectoryError
      | Some Dir \<Rightarrow> (case nodes fs (q @ [c]) of None \<Rightarrow> Inl FileNotFoundError | Some n \<Rightarrow> Inr n))"
proof -
  from p have c: "proper c" by simp
  show ?thesis
    unfolding stat_render [OF p] walk_append up
    using c by (simp add: walk_proper node_at_def node_in_def del: walk.simps split: option.splits node.splits)
qed

text \<open>The last step of \<^verbatim>\<open>os.makedirs\<close> below a parent that the walk reaches as a directory.\<close>

lemma mkdir_exist_ok_render:
  assumes p: "list_all proper (q @ [c])"
    and anc: "list_all (\<lambda>a. nodes fs a = Some Dir) (ancestors q)"
  shows "mkdir_exist_ok (render (q @ [c])) fs =
         (case mkdirs [q @ [c]] (nodes fs) of (r, ns) \<Rightarrow> (r, fs\<lparr>nodes := ns\<rparr>))"
proof -
  from p have q: "list_all proper q" by simp
  from anc walk_directories [OF q, of "nodes fs"]
  have up: "walk (nodes fs) q [] = Inr q" and dir: "node_at fs q = Some Dir"
    by (simp_all add: node_at_def)
  show ?thesis
  proof (cases "nodes fs (q @ [c])")
    case None
    with dir show ?thesis
      by (simp add: mkdir_exist_ok_def mkdir_render [OF p up])
  next
    case (Some n)
    with dir have mk: "os_mkdir (render (q @ [c])) fs = (Some FileExistsError, fs)"
      by (simp add: mkdir_render [OF p up])
    from Some dir have st: "os_stat fs (render (q @ [c])) = Inr n"
      by (simp add: stat_render_child [OF p up])
    show ?thesis
    proof (cases n)
      case Dir
      with Some mk st show ?thesis
        by (simp add: mkdir_exist_ok_def os_path_isdir_def)
    next
      case (File d)
      with Some mk st show ?thesis
        by (simp add: mkdir_exist_ok_def os_path_isdir_def)
    qed
  qed
qed

text \<open>The last step of \<^verbatim>\<open>os.makedirs\<close> below a regular file.\<close>

lemma mkdir_exist_ok_below_file:
  assumes p: "list_all proper (q @ [c])" and "q \<noteq> []"
    and anc: "list_all (\<lambda>a. nodes fs a = Some Dir) (ancestors (butlast q))"
    and reg: "nodes fs q = Some (File d)"
  shows "mkdir_exist_ok (render (q @ [c])) fs = (Some NotADirectoryError, fs)"
proof -
  from p have q: "list_all proper q" by simp
  have up: "walk (nodes fs) q [] = Inr q"
    using q \<open>q \<noteq> []\<close> anc reg by (rule walk_to_file)
  from reg \<open>q \<noteq> []\<close> have node: "node_at fs q = Some (File d)"
    by (simp add: node_at_def node_in_def)
  then show ?thesis
    by (simp add: mkdir_exist_ok_def mkdir_render [OF p up] os_path_isdir_def stat_render_child [OF p up])
qed

lemma ancestors_last: "q \<noteq> [] \<Longrightarrow> last (ancestors q) = q \<and> butlast (ancestors q) = ancestors (butlast q)"
  by (cases q rule: rev_cases) (simp_all add: ancestors_snoc)

lemma ancestors_empty: "ancestors q = [] \<longleftrightarrow> q = []"
  by (cases q rule: rev_cases) (simp_all add: ancestors_snoc ancestors_Nil)

text \<open>
  On a normalised absolute name \<^verbatim>\<open>os.makedirs\<close> is the walk over the ancestors.
\<close>

lemma os_makedirs_render:
  assumes "list_all proper p"
  shows "os_makedirs (render p) fs =
         (case mkdirs (ancestors p) (nodes fs) of (r, ns) \<Rightarrow> (r, fs\<lparr>nodes := ns\<rparr>))"
  using assms
proof (induction p arbitrary: fs rule: rev_induct)
  case Nil
  have tail: "makedirs_tail ''/'' = []"
    by (simp add: makedirs_tail_def os_path_basename_def os_path_dirname_def)
  have "os_mkdir ''/'' fs = (Some FileExistsError, fs)"
    by (simp add: os_mkdir_def strip_trailing_def)
  moreover have "os_path_isdir fs ''/''"
    by (simp add: os_path_isdir_def os_stat_def start_dir_def isabs_def node_in_def node_at_def)
  ultimately have "mkdir_exist_ok ''/'' fs = (None, fs)"
    by (simp add: mkdir_exist_ok_def)
  with tail show ?case
    by (subst os_makedirs.simps) (simp add: render_def ancestors_Nil)
next
  case (snoc c q)
  note p = snoc.prems
  from p have q: "list_all proper q" and c: "proper c" by simp_all
  from c have cdot: "c \<noteq> ''.''" and cne: "c \<noteq> []" by (simp_all add: proper_def)
  note IH = snoc.IH [OF q]
  let ?name = "render (q @ [c])"
  let ?ns = "nodes fs"
  have head: "makedirs_head ?name = render q" and tail: "makedirs_tail ?name = c"
    by (rule makedirs_split_render [OF p])+
  have unfold: "os_makedirs ?name fs =
     (if \<not> os_path_exists fs (render q)
      then
        (case os_makedirs (render q) fs of
           (Some e, fs1) \<Rightarrow> if e = FileExistsError then mkdir_exist_ok ?name fs1 else (Some e, fs1)
         | (None, fs1) \<Rightarrow> mkdir_exist_ok ?name fs1)
      else mkdir_exist_ok ?name fs)"
    by (subst os_makedirs.simps)
       (simp add: head tail cdot cne render_nonempty split: prod.splits option.splits)
  show ?case
  proof (cases "os_path_exists fs (render q)")
    case True
    then obtain n where st: "os_stat fs (render q) = Inr n"
      by (auto simp: os_path_exists_def split: sum.splits)
    then obtain m where m: "walk ?ns q [] = Inr m" and node: "node_at fs m = Some n"
      by (auto simp: stat_render [OF q] split: sum.splits option.splits)
    from walk_result [OF q m] have mq: "m = q" by simp
    show ?thesis
    proof (cases n)
      case Dir
      with m mq node walk_directories [OF q, of ?ns]
      have anc: "list_all (\<lambda>a. ?ns a = Some Dir) (ancestors q)"
        by (simp add: node_at_def)
      then have "mkdirs (ancestors q) ?ns = (None, ?ns)" by (rule mkdirs_present)
      then have "mkdirs (ancestors (q @ [c])) ?ns = mkdirs [q @ [c]] ?ns"
        by (simp add: ancestors_snoc mkdirs_snoc del: mkdirs.simps)
      with True unfold mkdir_exist_ok_render [OF p anc] show ?thesis by simp
    next
      case (File d)
      with node mq have qne: "q \<noteq> []" and reg: "?ns q = Some (File d)"
        by (auto simp: node_at_def node_in_def split: if_splits)
      from qne obtain q' c' where q': "q = q' @ [c']"
        by (cases q rule: rev_cases) auto
      with q have q'p: "list_all proper q'" and c'p: "proper c'" by simp_all
      from m mq q' obtain m' where m': "walk ?ns q' [] = Inr m'" and step: "walk ?ns [c'] m' = Inr q"
        by (auto simp: walk_append split: sum.splits)
      from walk_result [OF q'p m'] have "m' = q'" by simp
      with step c'p have "node_in ?ns q' = Some Dir"
        by (auto simp: walk_proper simp del: walk.simps split: option.splits node.splits)
      with m' \<open>m' = q'\<close> walk_directories [OF q'p, of ?ns] q'
      have anc: "list_all (\<lambda>a. ?ns a = Some Dir) (ancestors (butlast q))" by simp
      then have "mkdirs (ancestors (butlast q)) ?ns = (None, ?ns)" by (rule mkdirs_present)
      with reg q' have "mkdirs (ancestors q) ?ns = (Some FileExistsError, ?ns)"
        by (simp add: ancestors_snoc mkdirs_snoc del: mkdirs.simps) simp
      then have "mkdirs (ancestors (q @ [c])) ?ns = (Some NotADirectoryError, ?ns)"
        by (simp add: ancestors_snoc mkdirs_snoc del: mkdirs.simps)
      with True unfold mkdir_exist_ok_below_file [OF p qne anc reg] show ?thesis by simp
    qed
  next
    case False
    obtain r ns1 where mk: "mkdirs (ancestors q) ?ns = (r, ns1)"
      by (cases "mkdirs (ancestors q) ?ns")
    define fs1 where "fs1 = fs\<lparr>nodes := ns1\<rparr>"
    from IH [of fs] mk have rec: "os_makedirs (render q) fs = (r, fs1)"
      by (simp add: fs1_def)
    have n1: "nodes fs1 = ns1" and lift: "fs1\<lparr>nodes := x\<rparr> = fs\<lparr>nodes := x\<rparr>" for x
      by (simp_all add: fs1_def)
    show ?thesis
    proof (cases r)
      case None
      with mk have anc: "list_all (\<lambda>a. nodes fs1 a = Some Dir) (ancestors q)"
        unfolding n1 by (intro mkdirs_success) simp
      from None mk have "mkdirs (ancestors (q @ [c])) ?ns = mkdirs [q @ [c]] ns1"
        by (simp add: ancestors_snoc mkdirs_snoc del: mkdirs.simps)
      with False unfold rec None mkdir_exist_ok_render [OF p anc] show ?thesis
        by (simp add: n1 lift)
    next
      case (Some e)
      from Some mk have all: "mkdirs (ancestors (q @ [c])) ?ns = (Some NotADirectoryError, ns1)"
        by (simp add: ancestors_snoc mkdirs_snoc del: mkdirs.simps)
      show ?thesis
      proof (cases "e = FileExistsError")
        case True
        with Some mk have "mkdirs (ancestors q) ?ns = (Some FileExistsError, ns1)" by simp
        from mkdirs_file_exists [OF this]
        have ne: "ancestors q \<noteq> []" and f: "\<exists>d. ns1 (last (ancestors q)) = Some (File d)"
          and a: "list_all (\<lambda>a. ns1 a = Some Dir) (butlast (ancestors q))"
          by simp_all
        from ne have qne: "q \<noteq> []" by (simp add: ancestors_empty)
        from f a ancestors_last [OF qne] obtain d where reg: "nodes fs1 q = Some (File d)"
          and anc: "list_all (\<lambda>a. nodes fs1 a = Some Dir) (ancestors (butlast q))"
          unfolding n1 by auto
        from False unfold rec Some True mkdir_exist_ok_below_file [OF p qne anc reg] all
        show ?thesis by (simp add: fs1_def)
      next
        case other: False
        from Some mk mkdirs_errors [of "ancestors q" ?ns e ns1] other
        have "e = NotADirectoryError" by simp
        with False unfold rec Some other all show ?thesis by (simp add: fs1_def)
      qed
    qed
  qed
qed

section \<open>Properties of the path rewriter\<close>

lemma os_makedirs_idem:
  assumes "list_all proper p"
  shows "os_makedirs (render p) (snd (os_makedirs (render p) fsys)) = os_makedirs (render p) fsys"
proof -
  obtain r ns where res: "mkdirs (ancestors p) (nodes fsys) = (r, ns)"
    by (cases "mkdirs (ancestors p) (nodes fsys)")
  with mkdirs_idem [of "ancestors p" "nodes fsys"]
  have "mkdirs (ancestors p) ns = (r, ns)" by simp
  with res show ?thesis by (simp add: os_makedirs_render [OF assms])
qed

lemma os_makedirs_cwd: "list_all proper p \<Longrightarrow> cwd (snd (os_makedirs (render p) fsys)) = cwd fsys"
  by (simp add: os_makedirs_render split: prod.splits)

lemma change_path_idem: "change_path category dir_type (snd (change_path category dir_type w)) = change_path category dir_type w"
proof (cases "py_get category (PStr dir_type) (PStr [])")
  case (Inl e)
  then show ?thesis by (simp add: change_path_def)
next
  case (Inr new_location)
  show ?thesis
  proof (cases "truthy new_location")
    case False
    with Inr show ?thesis by (simp add: change_path_def)
  next
    case True
    show ?thesis
    proof (cases new_location)
      case (PStr p)
      let ?loc = "render (resolve (cwd (files w)) p)"
      obtain r fs1 where mk: "os_makedirs ?loc (files w) = (r, fs1)" by (cases "os_makedirs ?loc (files w)")
      have norm: "list_all proper (resolve (cwd (files w)) p)" by (rule resolve_proper)
      from os_makedirs_idem [OF norm, of "files w"] mk have again: "os_makedirs ?loc fs1 = (r, fs1)" by simp
      from os_makedirs_cwd [OF norm, of "files w"] mk have wd: "cwd fs1 = cwd (files w)" by simp
      show ?thesis
      proof (cases r)
        case None
        with Inr True PStr mk again wd show ?thesis
          by (simp add: change_path_def os_path_realpath_def)
      next
        case (Some e)
        with Inr True PStr mk again wd show ?thesis
          by (simp add: change_path_def os_path_realpath_def)
      qed
    qed (use Inr True in \<open>simp_all add: change_path_def os_path_realpath_def\<close>)
  qed
qed


lemma os_makedirs_present:
  assumes "list_all proper p" and "directory_exists fsys (render p)"
  shows "os_makedirs (render p) fsys = (None, fsys)"
proof -
  from assms have "list_all (\<lambda>a. nodes fsys a = Some Dir) (ancestors p)"
    by (simp add: directory_exists_def resolve_render)
  then have "mkdirs (ancestors p) (nodes fsys) = (None, nodes fsys)" by (rule mkdirs_present)
  then show ?thesis by (simp add: os_makedirs_render [OF assms(1)])
qed

text \<open>
  C8: \<^verbatim>\<open>change_path\<close> is idempotent: applied to the store it leaves behind, it gives
  the same outcome and the same store again, so the same path parameter. When the
  directory is there already it raises nothing, leaves the file system as it is and sets
  the path parameter; when the category has no entry for the kind it changes nothing.
\<close>

theorem change_path_idempotent:
  "change_path category dir_type (snd (change_path category dir_type w)) = change_path category dir_type w
   \<and> (category = PDict d \<longrightarrow> map_of d dir_type = Some (PStr location) \<longrightarrow> location \<noteq> []
        \<longrightarrow> directory_exists (files w) (render (resolve (cwd (files w)) location))
        \<longrightarrow> change_path category dir_type w =
              (Inr (), w\<lparr>paths := (paths w)(dir_type \<mapsto> render (resolve (cwd (files w)) location))\<rparr>))
   \<and> (category = PDict d \<longrightarrow> map_of d dir_type = None
        \<longrightarrow> change_path category dir_type w = (Inr (), w))"
proof (intro conjI impI)
  show "change_path category dir_type (snd (change_path category dir_type w)) = change_path category dir_type w"
    by (rule change_path_idem)
next
  assume "category = PDict d" and "map_of d dir_type = Some (PStr location)" and "location \<noteq> []"
    and "directory_exists (files w) (render (resolve (cwd (files w)) location))"
  then show "change_path category dir_type w =
     (Inr (), w\<lparr>paths := (paths w)(dir_type \<mapsto> render (resolve (cwd (files w)) location))\<rparr>)"
    by (simp add: change_path_def os_path_realpath_def os_makedirs_present resolve_proper)
next
  assume "category = PDict d" and "map_of d dir_type = None"
  then show "change_path category dir_type w = (Inr (), w)"
    by (simp add: change_path_def)
qed

lemma resolve_media: "resolve ''/work'' ''/media/first'' = [''media'', ''first'']"
  by (simp add: resolve_def isabs_def norm_step_def)

lemma render_media: "render [''media'', ''first''] = ''/media/first''"
  by (simp add: render_def)

lemma real_media: "render (resolve ''/work'' ''/media/first'') = ''/media/first''"
  by (simp add: resolve_media render_media)

lemma media_first_exists: "directory_exists media_files (render [''media'', ''first''])"
  by (simp add: directory_exists_def render_media media_files_def resolve_media ancestors_def upt_rec)

lemma media_first_present: "os_makedirs ''/media/first'' media_files = (None, media_files)"
  using os_makedirs_present [OF _ media_first_exists] by (simp add: proper_def render_media)

theorem change_path_idempotent_witness:
  "change_path first_category ''home'' (snd (change_path first_category ''home'' example_host))
     = change_path first_category ''home'' example_host
   \<and> change_path first_category ''home'' example_host =
       (Inr (), example_host\<lparr>paths := [''home'' \<mapsto> ''/media/first'']\<rparr>)
   \<and> change_path first_category ''temp'' example_host = (Inr (), example_host)"
proof -
  have wd: "cwd (files example_host) = ''/work''"
    by (simp add: example_host_def media_files_def)
  have there: "directory_exists (files example_host) (render (resolve (cwd (files example_host)) ''/media/first''))"
    unfolding wd real_media
    by (simp add: directory_exists_def example_host_def media_files_def resolve_media ancestors_def upt_rec)
  have home: "map_of [(''home'', PStr ''/media/first''),
            (''field'', PDict [(''title'', PDict []),
                               (''channel'', PDict [(''X'', PStr ''A'')])])] ''home'' = Some (PStr ''/media/first'')"
    by simp
  have temp: "map_of [(''home'', PStr ''/media/first''),
            (''field'', PDict [(''title'', PDict []),
                               (''channel'', PDict [(''X'', PStr ''A'')])])] ''temp'' = None"
    by simp
  have ne: "''/media/first'' \<noteq> []" by simp
  note a = change_path_idempotent [of first_category "''home''" example_host _ "''/media/first''", THEN conjunct1]
  note b = change_path_idempotent [of first_category "''home''" example_host _ "''/media/first''",
      THEN conjunct2, THEN conjunct1, rule_format, OF first_category_def home ne there]
  note c = change_path_idempotent [of first_category "''temp''" example_host _ "[]",
      THEN conjunct2, THEN conjunct2, rule_format, OF first_category_def temp]
  have p: "paths example_host = Map.empty" by (simp add: example_host_def)
  from a b c show ?thesis
    unfolding wd real_media p by simp
qed

section \<open>Properties of the lifecycle guard\<close>

lemma locate_find:
  "(case find (\<lambda>pp. map_of pp ''key'' = Some this_class_name) pps of
      None \<Rightarrow> locate pps i = - 1
    | Some pp \<Rightarrow> int i \<le> locate pps i \<and> nat (locate pps i) - i < length pps
                 \<and> pps ! (nat (locate pps i) - i) = pp)"
proof (induction pps arbitrary: i)
  case Nil
  then show ?case by simp
next
  case (Cons p pps)
  show ?case
  proof (cases "map_of p ''key'' = Some this_class_name")
    case True
    then show ?thesis by simp
  next
    case False
    show ?thesis
    proof (cases "find (\<lambda>pp. map_of pp ''key'' = Some this_class_name) pps")
      case None
      with False Cons.IH [of "Suc i"] show ?thesis by simp
    next
      case (Some pp)
      with Cons.IH [of "Suc i"] have le: "int (Suc i) \<le> locate pps (Suc i)"
        and len: "nat (locate pps (Suc i)) - Suc i < length pps"
        and nth: "pps ! (nat (locate pps (Suc i)) - Suc i) = pp"
        by simp_all
      from le have "nat (locate pps (Suc i)) - i = Suc (nat (locate pps (Suc i)) - Suc i)"
        by linarith
      with False Some le len nth show ?thesis by simp
    qed
  qed
qed

lemma pp_exec_position:
  "(let pp_list = pps;
        pp_position = locate pp_list 0;
        pp_exec_info = (if pp_position \<ge> 0 then pp_list ! nat pp_position else [])
    in (case map_of pp_exec_info ''when'' of None \<Rightarrow> ''post_process'' | Some s \<Rightarrow> s))
   = registered_stage pps"
proof (cases "find (\<lambda>pp. map_of pp ''key'' = Some this_class_name) pps")
  case None
  with locate_find [of pps 0] show ?thesis
    by (simp add: registered_stage_def)
next
  case (Some pp)
  with locate_find [of pps 0] show ?thesis
    by (simp add: registered_stage_def)
qed

lemma starts_with_append: "starts_with s (s @ t)"
  by (induction s) simp_all

lemma contains_here: "contains s (s @ t)"
  using starts_with_append [of s t] by (cases "s @ t") auto

lemma contains_append: "contains s t \<Longrightarrow> contains s (p @ t)"
  by (induction p) simp_all

text \<open>
  C6: \<^verbatim>\<open>check_pp_position\<close> returns when the declared stage of the plugin is one of
  \<^verbatim>\<open>pre_process\<close>, \<^verbatim>\<open>after_filter\<close>, \<^verbatim>\<open>video\<close>, and raises otherwise, with a
  message that holds the stage and the list of the allowed stages.
\<close>

theorem check_pp_position_stage:
  "check_pp_position w =
     (if registered_stage (postprocessors w) \<in> {''pre_process'', ''after_filter'', ''video''}
      then Inr ()
      else Inl (ValueError (invalid_when_message (registered_stage (postprocessors w)))))
   \<and> contains stage (invalid_when_message stage)
   \<and> contains ''pre_process, after_filter, video'' (invalid_when_message stage)"
proof (intro conjI)
  show "check_pp_position w =
     (if registered_stage (postprocessors w) \<in> {''pre_process'', ''after_filter'', ''video''}
      then Inr ()
      else Inl (ValueError (invalid_when_message (registered_stage (postprocessors w)))))"
    using pp_exec_position [of "postprocessors w"]
    by (simp add: check_pp_position_def supported_pp_positions_def Let_def)
  show "contains stage (invalid_when_message stage)"
    unfolding invalid_when_message_def
    by (rule contains_append) (rule contains_here)
  have allowed: "join_comma supported_pp_positions = ''pre_process, after_filter, video''"
    by (simp add: supported_pp_positions_def)
  show "contains ''pre_process, after_filter, video'' (invalid_when_message stage)"
    unfolding invalid_when_message_def allowed
    by (rule contains_append, rule contains_append, rule contains_append, rule contains_append,
        rule contains_append, rule contains_here)
qed

theorem check_pp_position_stage_witness:
  \<open>check_pp_position unregistered_host =
     Inl (ValueError ''Invalid "when" value "post_process" for post-processor "ChannelMapping" (should be: pre_process, after_filter, video)'')
   \<and> check_pp_position example_host = Inr ()\<close>
proof -
  have "registered_stage (postprocessors unregistered_host) = ''post_process''"
    by (simp add: registered_stage_def unregistered_host_def example_host_def this_class_name_def)
  moreover have "registered_stage (postprocessors example_host) = ''pre_process''"
    by (simp add: registered_stage_def example_host_def this_class_name_def)
  ultimately show ?thesis
    using check_pp_position_stage [of unregistered_host] check_pp_position_stage [of example_host]
    by (simp add: invalid_when_message_def supported_pp_positions_def this_class_name_def)
qed

section \<open>Properties of the top-level run\<close>

text \<open>
  C3: when the default output template does not contain the placeholder, \<^verbatim>\<open>run\<close>
  returns an empty deletion list and leaves the whole store as it was: the metadata
  record, the path parameters, the file system, the cleanup list and the registered
  steps.
\<close>

theorem run_gate_closed:
  "\<not> is_mapping_used w \<Longrightarrow> run w = (Inr [], w)"
  by (simp add: run_def)

theorem run_gate_closed_witness:
  "\<not> is_mapping_used plain_host \<and> run plain_host = (Inr [], plain_host)"
proof -
  have closed: "\<not> is_mapping_used plain_host"
    by (simp add: is_mapping_used_def plain_host_def example_host_def)
  from run_gate_closed [OF closed] closed show ?thesis by simp
qed

lemma change_path_added_pps: "added_pps (snd (change_path category dir_type w)) = added_pps w"
  by (simp add: change_path_def split: sum.splits prod.splits option.splits)

lemma mapping_before_download_added_pps: "added_pps (snd (mapping_before_download w)) = added_pps w"
proof (cases "py_get (PDict (information w)) (PStr ''channel'') (PStr [])")
  case (Inl e)
  then show ?thesis by (simp add: mapping_before_download_def)
next
  case (Inr original_channel)
  show ?thesis
  proof (cases "find_category (mapping w) original_channel original_channel")
    case (Inl e)
    with Inr show ?thesis by (simp add: mapping_before_download_def)
  next
    case found: (Inr triple)
    obtain category field new_channel_name where triple: "triple = (category, field, new_channel_name)"
      by (cases triple)
    obtain r1 w1 where home: "change_path category ''home'' w = (r1, w1)"
      by (cases "change_path category ''home'' w")
    obtain r2 w2 where temp: "change_path category ''temp'' w1 = (r2, w2)"
      by (cases "change_path category ''temp'' w1")
    from change_path_added_pps [of category "''home''" w] home have a1: "added_pps w1 = added_pps w"
      by simp
    from change_path_added_pps [of category "''temp''" w1] temp a1 have a2: "added_pps w2 = added_pps w"
      by simp
    show ?thesis
    proof (cases r1)
      case (Inl e)
      with Inr found triple home a1 show ?thesis by (simp add: mapping_before_download_def)
    next
      case u1: (Inr u)
      show ?thesis
      proof (cases r2)
        case (Inl e)
        with Inr found triple home temp u1 a2 show ?thesis by (simp add: mapping_before_download_def)
      next
        case (Inr u')
        with \<open>py_get (PDict (information w)) (PStr ''channel'') (PStr []) = Inr original_channel\<close>
          found triple home temp u1 a2 show ?thesis by (simp add: mapping_before_download_def)
      qed
    qed
  qed
qed

lemma main_processing_added_pps: "added_pps (snd (main_processing w)) = added_pps w"
  by (simp add: main_processing_def mapping_after_download_def mapping_before_download_added_pps
      split: sum.splits)

text \<open>
  C4, as the code has it: \<^verbatim>\<open>run\<close> never raises, whatever the position check and the
  dispatch do, and it adds the cleanup step exactly when the gate is open; with the
  gate closed it adds nothing.
\<close>

theorem run_returns_and_schedules:
  "(\<exists>deletable. fst (run w) = Inr deletable)
   \<and> added_pps (snd (run w)) =
       (if is_mapping_used w then added_pps w @ [(PostCleanupPP, ''after_video'')] else added_pps w)"
proof (cases "is_mapping_used w")
  case False
  then show ?thesis by (simp add: run_def)
next
  case True
  show ?thesis
  proof (cases "check_pp_position w")
    case (Inl e)
    with True show ?thesis by (simp add: run_def add_post_processor_def)
  next
    case (Inr u)
    obtain r w1 where mp: "main_processing w = (r, w1)" by (cases "main_processing w")
    with main_processing_added_pps [of w] have "added_pps w1 = added_pps w" by simp
    with True Inr mp show ?thesis
      by (cases r) (simp_all add: run_def add_post_processor_def)
  qed
qed

lemma open_gate: "is_mapping_used example_host"
  by (simp add: is_mapping_used_def example_host_def)

theorem run_returns_and_schedules_witness:
  "fst (run unregistered_host) = Inr []
   \<and> information (snd (run unregistered_host)) = information unregistered_host
   \<and> added_pps (snd (run unregistered_host)) = [(PostCleanupPP, ''after_video'')]
   \<and> fst (run transferred_host) = Inr []
   \<and> information (snd (run transferred_host)) = information transferred_host
   \<and> added_pps (snd (run transferred_host)) = [(PostCleanupPP, ''after_video'')]
   \<and> added_pps (snd (run plain_host)) = []"
proof -
  have g1: "is_mapping_used unregistered_host"
    using open_gate by (simp add: is_mapping_used_def unregistered_host_def)
  have g2: "is_mapping_used transferred_host"
    using open_gate by (simp add: is_mapping_used_def transferred_host_def)
  have g3: "\<not> is_mapping_used plain_host"
    by (simp add: is_mapping_used_def plain_host_def example_host_def)
  have c1: "check_pp_position unregistered_host = Inl (ValueError (invalid_when_message ''post_process''))"
    by (simp add: check_pp_position_def unregistered_host_def example_host_def this_class_name_def
        supported_pp_positions_def)
  have c2: "check_pp_position transferred_host = Inr ()"
    by (simp add: check_pp_position_def transferred_host_def example_host_def this_class_name_def
        supported_pp_positions_def)
  have m2: "main_processing transferred_host = (Inl (PostProcessingError unimplemented_message), transferred_host)"
    by (simp add: main_processing_def mapping_after_download_def transferred_host_def)
  have r1: "run unregistered_host = (Inr [], add_post_processor PostCleanupPP ''after_video'' unregistered_host)"
    using g1 c1 by (simp add: run_def)
  have r2: "run transferred_host = (Inr [], add_post_processor PostCleanupPP ''after_video'' transferred_host)"
    using g2 c2 m2 by (simp add: run_def)
  have a1: "added_pps unregistered_host = []"
    by (simp add: unregistered_host_def example_host_def)
  have a2: "added_pps transferred_host = []"
    by (simp add: transferred_host_def example_host_def)
  have a3: "added_pps plain_host = []"
    by (simp add: plain_host_def example_host_def)
  from run_returns_and_schedules [of unregistered_host] run_returns_and_schedules [of transferred_host]
    run_returns_and_schedules [of plain_host] g1 g2 g3 a1 a2 a3 r1 r2
  show ?thesis by (simp add: add_post_processor_def)
qed

text \<open>
  A run whose output template lacks the placeholder returns without adding the cleanup
  step.
\<close>

theorem gated_out_run_schedules_nothing:
  "fst (run plain_host) = Inr [] \<and> added_pps (snd (run plain_host)) = []"
  by (simp add: run_def is_mapping_used_def plain_host_def example_host_def)

section \<open>Properties of the dispatch\<close>

text \<open>
  C7, as the code has it: when the record holds a \<^verbatim>\<open>filepath\<close> with a true truth
  value (a non-empty path), \<^verbatim>\<open>main_processing\<close> raises the PostProcessingError that
  tells the operator to register the plugin at \<^verbatim>\<open>pre_process\<close>, and the store, the
  record with it, is as before.
\<close>

theorem main_processing_after_transfer:
  assumes "map_of (information w) ''filepath'' = Some filepath" and "truthy filepath"
  shows "main_processing w = (Inl (PostProcessingError unimplemented_message), w)"
  using assms by (simp add: main_processing_def mapping_after_download_def)

theorem main_processing_after_transfer_witness:
  "map_of (information transferred_host) ''filepath'' = Some (PStr ''/media/x.mp4'')
   \<and> truthy (PStr ''/media/x.mp4'')
   \<and> main_processing transferred_host = (Inl (PostProcessingError unimplemented_message), transferred_host)"
proof -
  have present: "map_of (information transferred_host) ''filepath'' = Some (PStr ''/media/x.mp4'')"
    by (simp add: transferred_host_def)
  have true: "truthy (PStr ''/media/x.mp4'')" by simp
  from main_processing_after_transfer [OF present true] present show ?thesis by simp
qed

lemma find_category_Y: "find_category two_category_document (PStr ''Y'') (PStr ''Y'') = Inr (PDict [], [], PStr ''Y'')"
  by (simp add: find_category_def find_field_def two_category_document_def)

text \<open>
  A record whose \<^verbatim>\<open>filepath\<close> is the empty string has the key, yet it is mapped as
  before the download: nothing is raised and \<^verbatim>\<open>mapped_channel\<close> is injected.
\<close>

theorem main_processing_empty_filepath:
  "map_of (information empty_filepath_host) ''filepath'' = Some (PStr [])
   \<and> fst (main_processing empty_filepath_host) = Inr []
   \<and> information (snd (main_processing empty_filepath_host)) =
       [(''channel'', PStr ''Y''), (''filepath'', PStr []), (''mapped_channel'', PStr ''Y'')]"
proof -
  have info: "information empty_filepath_host = [(''channel'', PStr ''Y''), (''filepath'', PStr [])]"
    by (simp add: empty_filepath_host_def)
  have doc: "mapping empty_filepath_host = two_category_document"
    by (simp add: empty_filepath_host_def example_host_def)
  show ?thesis
    by (simp add: main_processing_def mapping_before_download_def info doc find_category_Y
        change_path_def mapped_field_name_def)
qed

section \<open>Properties of the cleanup step\<close>

lemma fold_delete_filter:
  "fold AList.delete keys info = filter (\<lambda>kv. fst kv \<notin> set keys) info"
proof (induction keys arbitrary: info)
  case Nil
  then show ?case by simp
next
  case (Cons k keys)
  have "AList.delete k info = filter (\<lambda>kv. fst kv \<noteq> k) info"
    by (induction info) auto
  with Cons show ?case
    by (simp add: conj_commute)
qed

text \<open>
  C5: the cleanup step removes from the metadata record every entry whose key is in its
  list, the keys the instance has injected, and nothing else: the other entries stay,
  with their values and in their order. A key of the list that the record does not hold
  is passed over. The step run by the host does this with the instance's
  \<open>mapped_fields\<close>.
\<close>

theorem post_cleanup_removes_injected:
  "post_cleanup_run keys info = ([], filter (\<lambda>kv. fst kv \<notin> set keys) info)
   \<and> run_pp PostCleanupPP w =
       ([], w\<lparr>information := filter (\<lambda>kv. fst kv \<notin> set (mapped_fields w)) (information w)\<rparr>)"
  by (simp add: post_cleanup_run_def fold_delete_filter)

theorem post_cleanup_removes_injected_witness:
  "post_cleanup_run [''mapped_channel'', ''mapped_title'']
     [(''channel'', PStr ''X''), (''mapped_channel'', PStr ''Y''), (''other'', PInt 1)]
   = ([], [(''channel'', PStr ''X''), (''other'', PInt 1)])"
  using post_cleanup_removes_injected [of "[''mapped_channel'', ''mapped_title'']"
      "[(''channel'', PStr ''X''), (''mapped_channel'', PStr ''Y''), (''other'', PInt 1)]" example_host]
  by simp

section \<open>Properties of the mapping before the download\<close>

lemma change_path_frame:
  "information (snd (change_path category dir_type w)) = information w
   \<and> mapped_fields (snd (change_path category dir_type w)) = mapped_fields w
   \<and> screen (snd (change_path category dir_type w)) = screen w"
  by (simp add: change_path_def split: sum.splits prod.splits option.splits)

lemma get_channel:
  "py_get (PDict info) (PStr ''channel'') (PStr []) = Inr (original_channel_of info)"
  by (simp add: original_channel_of_def split: option.splits)

lemma change_path_empty_category: "change_path (PDict []) dir_type w = (Inr (), w)"
  by (simp add: change_path_def)

text \<open>
  C10, as the code has it: whenever the lookup and the two path rewrites raise nothing,
  \<^verbatim>\<open>mapping_before_download\<close> injects \<^verbatim>\<open>mapped_<field>\<close> (\<^verbatim>\<open>mapped_channel\<close> when the
  field name is empty) with the looked-up value and appends that key to the cleanup
  list. On a miss in a document of the specified shape nothing can raise: the paths
  stay, the key is \<^verbatim>\<open>mapped_channel\<close>, its value is the original channel name, and
  the cleanup list grows by that key.
\<close>

theorem mapping_before_download_injects:
  "(find_category (mapping w) (original_channel_of (information w)) (original_channel_of (information w))
      = Inr (category, field, new_channel_name)
    \<longrightarrow> change_path category ''home'' w = (Inr (), w1)
    \<longrightarrow> change_path category ''temp'' w1 = (Inr (), w2)
    \<longrightarrow> mapping_before_download w =
          (Inr [],
           w2\<lparr>screen := screen w @ [ToScreen (original_channel_of (information w)) new_channel_name],
              information := AList.update (mapped_field_name field) new_channel_name (information w),
              mapped_fields := mapped_fields w @ [mapped_field_name field]\<rparr>))
   \<and> (is_mapping_document (mapping w)
    \<longrightarrow> hashable (original_channel_of (information w))
    \<longrightarrow> all_matches (mapping w) (original_channel_of (information w)) = []
    \<longrightarrow> mapping_before_download w =
          (Inr [],
           w\<lparr>screen := screen w @ [ToScreen (original_channel_of (information w))
                                            (original_channel_of (information w))],
             information := AList.update ''mapped_channel'' (original_channel_of (information w))
                              (information w),
             mapped_fields := mapped_fields w @ [''mapped_channel'']\<rparr>))"
proof (intro conjI impI)
  assume found: "find_category (mapping w) (original_channel_of (information w))
                   (original_channel_of (information w)) = Inr (category, field, new_channel_name)"
    and home: "change_path category ''home'' w = (Inr (), w1)"
    and temp: "change_path category ''temp'' w1 = (Inr (), w2)"
  from change_path_frame [of category "''home''" w] home
  have f1: "information w1 = information w" "mapped_fields w1 = mapped_fields w" "screen w1 = screen w"
    by simp_all
  from change_path_frame [of category "''temp''" w1] temp f1
  have f2: "information w2 = information w" "mapped_fields w2 = mapped_fields w" "screen w2 = screen w"
    by simp_all
  from found home temp f2
  show "mapping_before_download w =
          (Inr [],
           w2\<lparr>screen := screen w @ [ToScreen (original_channel_of (information w)) new_channel_name],
              information := AList.update (mapped_field_name field) new_channel_name (information w),
              mapped_fields := mapped_fields w @ [mapped_field_name field]\<rparr>)"
    unfolding mapping_before_download_def get_channel by simp
next
  assume "is_mapping_document (mapping w)" and "hashable (original_channel_of (information w))"
    and "all_matches (mapping w) (original_channel_of (information w)) = []"
  then have "find_category (mapping w) (original_channel_of (information w))
               (original_channel_of (information w))
             = Inr (PDict [], [], original_channel_of (information w))"
    by (rule find_category_miss)
  then show "mapping_before_download w =
          (Inr [],
           w\<lparr>screen := screen w @ [ToScreen (original_channel_of (information w))
                                            (original_channel_of (information w))],
             information := AList.update ''mapped_channel'' (original_channel_of (information w))
                              (information w),
             mapped_fields := mapped_fields w @ [''mapped_channel'']\<rparr>)"
    unfolding mapping_before_download_def get_channel
    by (simp add: change_path_empty_category mapped_field_name_def)
qed

lemma find_category_X:
  "find_category two_category_document (PStr ''X'') (PStr ''X'') = Inr (first_category, ''channel'', PStr ''A'')"
  by (simp add: find_category_def find_field_def two_category_document_def first_category_def)

theorem mapping_before_download_injects_witness:
  "information (snd (mapping_before_download example_host)) =
     [(''channel'', PStr ''X''), (''other'', PInt 1), (''mapped_channel'', PStr ''A'')]
   \<and> mapped_fields (snd (mapping_before_download example_host)) = [''mapped_channel'']
   \<and> paths (snd (mapping_before_download example_host)) ''home'' = Some ''/media/first''
   \<and> information (snd (mapping_before_download unknown_channel_host)) =
     [(''channel'', PStr ''Y''), (''other'', PInt 1), (''mapped_channel'', PStr ''Y'')]
   \<and> mapped_fields (snd (mapping_before_download unknown_channel_host)) = [''mapped_channel'']
   \<and> paths (snd (mapping_before_download unknown_channel_host)) ''home'' = None"
proof -
  have chX: "original_channel_of (information example_host) = PStr ''X''"
    by (simp add: original_channel_of_def example_host_def)
  have docX: "mapping example_host = two_category_document"
    by (simp add: example_host_def)
  have found: "find_category (mapping example_host) (original_channel_of (information example_host))
                 (original_channel_of (information example_host)) = Inr (first_category, ''channel'', PStr ''A'')"
    unfolding chX docX by (rule find_category_X)
  have wd: "cwd (files example_host) = ''/work''"
    by (simp add: example_host_def media_files_def)
  have mk: "os_makedirs ''/media/first'' (files example_host) = (None, files example_host)"
    using media_first_present by (simp add: example_host_def)
  have home: "change_path first_category ''home'' example_host =
                (Inr (), example_host\<lparr>paths := (paths example_host)(''home'' \<mapsto> ''/media/first'')\<rparr>)"
    by (simp add: change_path_def first_category_def os_path_realpath_def wd real_media mk)
  have temp: "change_path first_category ''temp''
                (example_host\<lparr>paths := (paths example_host)(''home'' \<mapsto> ''/media/first'')\<rparr>) =
                (Inr (), example_host\<lparr>paths := (paths example_host)(''home'' \<mapsto> ''/media/first'')\<rparr>)"
    by (simp add: change_path_def first_category_def)
  note hit = mapping_before_download_injects [THEN conjunct1, rule_format, OF found home temp]
  have chY: "original_channel_of (information unknown_channel_host) = PStr ''Y''"
    by (simp add: original_channel_of_def unknown_channel_host_def)
  have docY: "mapping unknown_channel_host = two_category_document"
    by (simp add: unknown_channel_host_def example_host_def)
  have shape: "is_mapping_document (mapping unknown_channel_host)"
    unfolding docY by (simp add: two_category_document_def opt_all_def)
  have key: "hashable (original_channel_of (information unknown_channel_host))"
    unfolding chY by simp
  have none: "all_matches (mapping unknown_channel_host) (original_channel_of (information unknown_channel_host)) = []"
    unfolding chY docY by (simp add: all_matches_def field_matches_def two_category_document_def)
  note miss = mapping_before_download_injects [THEN conjunct2, rule_format, OF shape key none]
  show ?thesis
    unfolding hit miss chX chY
    by (simp add: example_host_def unknown_channel_host_def mapped_field_name_def)
qed

text \<open>
  With a regular file where the home directory of the matched category should be made,
  \<^verbatim>\<open>os.makedirs\<close> raises, and \<^verbatim>\<open>mapping_before_download\<close> with it: nothing is
  injected and the cleanup list stays empty.
\<close>

theorem mapping_before_download_blocked:
  "fst (mapping_before_download blocked_host) = Inl NotADirectoryError
   \<and> information (snd (mapping_before_download blocked_host)) = [(''channel'', PStr ''X''), (''other'', PInt 1)]
   \<and> mapped_fields (snd (mapping_before_download blocked_host)) = []"
proof -
  have info: "information blocked_host = [(''channel'', PStr ''X''), (''other'', PInt 1)]"
    by (simp add: blocked_host_def example_host_def)
  have doc: "mapping blocked_host = two_category_document"
    by (simp add: blocked_host_def example_host_def)
  have wd: "cwd (files blocked_host) = ''/work''"
    by (simp add: blocked_host_def)
  have "list_all proper [''media'', ''first'']" by (simp add: proper_def)
  from os_makedirs_render [OF this, of "files blocked_host"]
  have mk: "fst (os_makedirs ''/media/first'' (files blocked_host)) = Some NotADirectoryError"
    by (simp add: render_media ancestors_def upt_rec blocked_host_def)
  obtain fs1 where mk': "os_makedirs ''/media/first'' (files blocked_host) = (Some NotADirectoryError, fs1)"
    using mk by (cases "os_makedirs ''/media/first'' (files blocked_host)") simp
  have home: "change_path first_category ''home'' blocked_host =
                (Inl NotADirectoryError, blocked_host\<lparr>files := fs1\<rparr>)"
    by (simp add: change_path_def first_category_def os_path_realpath_def wd real_media mk')
  show ?thesis
    by (simp add: mapping_before_download_def info doc find_category_X home)
       (simp add: blocked_host_def example_host_def)
qed

section \<open>Properties of the configuration loader\<close>

lemma strip_trailing_last:
  assumes "strip_trailing xs = xs" and "xs \<noteq> []"
  shows "last xs \<noteq> []"
proof
  assume "last xs = []"
  with assms(2) have "hd (rev xs) = []" and "rev xs \<noteq> []"
    by (simp_all add: hd_rev)
  then have "length (dropWhile (\<lambda>c. c = []) (rev xs)) < length (rev xs)"
    by (cases "rev xs") (simp_all add: le_imp_less_Suc length_dropWhile_le)
  then have "length (strip_trailing xs) < length xs"
    by (simp add: strip_trailing_def)
  with assms(1) show False by simp
qed

text \<open>A walk that ends at a directory is the same after a file is written elsewhere.\<close>

lemma walk_update:
  assumes "walk ns xs cur = Inr d" and "node_in ns d = Some Dir" and "ns k \<noteq> Some Dir"
  shows "walk (ns(k \<mapsto> v)) xs cur = Inr d"
proof -
  define ns' where "ns' = ns(k \<mapsto> v)"
  have child: "ns' p \<noteq> None" if "ns p \<noteq> None" for p
    using that by (simp add: ns'_def)
  have dir: "node_in ns' p = Some Dir" if "node_in ns p = Some Dir" for p
    using that assms(3) by (auto simp: ns'_def node_in_def)
  from assms(1) have "walk ns' xs cur = Inr d"
  proof (induction xs arbitrary: cur)
    case Nil
    then show ?case by simp
  next
    case (Cons x xs)
    from Cons.prems have here: "node_in ns cur = Some Dir"
      by (simp split: option.splits node.splits)
    note here' = dir [OF here]
    consider "x = [] \<or> x = ''.''" | "x = ''..''" | "x \<noteq> [] \<and> x \<noteq> ''.'' \<and> x \<noteq> ''..''" by blast
    then show ?case
    proof cases
      case 1
      with Cons.prems here have "walk ns xs cur = Inr d" by auto
      from Cons.IH [OF this] 1 here' show ?thesis by auto
    next
      case 2
      with Cons.prems here have "walk ns xs (butlast cur) = Inr d" by simp
      from Cons.IH [OF this] 2 here' show ?thesis by simp
    next
      case 3
      with Cons.prems here have "walk ns xs (cur @ [x]) = Inr d" and "ns (cur @ [x]) \<noteq> None"
        by (auto split: option.splits)
      with Cons.IH [of "cur @ [x]"] child [of "cur @ [x]"] 3 here' show ?thesis by auto
    qed
  qed
  then show ?thesis by (simp only: ns'_def)
qed

text \<open>What has been written to a name is what is read back from it.\<close>

lemma read_after_write:
  assumes "write_file name doc fsys = (None, fsys')"
  shows "read_file name fsys' = Inr doc"
proof -
  define comps where "comps = split_sep name"
  define start where "start = start_dir fsys name"
  from assms have name: "name \<noteq> []"
    by (auto simp: write_file_def)
  from assms name have ne: "strip_trailing comps \<noteq> []"
    by (auto simp: write_file_def comps_def Let_def)
  from assms name ne obtain d where up: "walk (nodes fsys) (butlast (strip_trailing comps)) start = Inr d"
    by (auto simp: write_file_def comps_def start_def Let_def split: sum.splits)
  from assms name ne up have dir: "node_at fsys d = Some Dir"
    by (auto simp: write_file_def comps_def start_def Let_def split: option.splits node.splits)
  from assms name ne up dir have same: "strip_trailing comps = comps"
    and dots: "last comps \<noteq> ''.''" "last comps \<noteq> ''..''"
    by (auto simp: write_file_def comps_def start_def Let_def split: if_splits)
  from same ne have cne: "comps \<noteq> []" by simp
  from strip_trailing_last [OF same cne] have lastne: "last comps \<noteq> []" .
  from assms name ne up dir same dots
  have free: "nodes fsys (d @ [last comps]) \<noteq> Some Dir"
    and after: "fsys' = fsys\<lparr>nodes := (nodes fsys)(d @ [last comps] \<mapsto> File (Some doc))\<rparr>"
    by (auto simp: write_file_def comps_def [symmetric] start_def [symmetric] Let_def
        split: option.splits node.splits)
  let ?ns = "(nodes fsys)(d @ [last comps] \<mapsto> File (Some doc))"
  from dir have dir_in: "node_in (nodes fsys) d = Some Dir" by (simp add: node_at_def)
  from up same have up': "walk (nodes fsys) (butlast comps) start = Inr d" by simp
  from walk_update [OF up' dir_in free]
  have "walk ?ns (butlast comps) start = Inr d" .
  moreover from dir_in have "node_in ?ns d = Some Dir"
    by (auto simp: node_in_def)
  ultimately have "walk ?ns (butlast comps @ [last comps]) start = Inr (d @ [last comps])"
    using lastne dots by (simp add: walk_append)
  with cne have "walk ?ns comps start = Inr (d @ [last comps])" by simp
  moreover have "start_dir fsys' name = start"
    by (simp add: after start_def start_dir_def)
  ultimately show ?thesis
    using name by (simp add: read_file_def os_stat_def after comps_def node_at_def node_in_def)
qed

lemma sort_keys_template: "sort_keys MAPPING_CONFIG_TEMPLATE = sorted_template"
  by code_simp

lemma sort_keys_sorted_template: "sort_keys sorted_template = sorted_template"
  by code_simp

lemma template_round_trip: "py_eq (dumped file_type MAPPING_CONFIG_TEMPLATE) MAPPING_CONFIG_TEMPLATE"
  by (cases file_type) (simp_all add: py_eq_def dumped_def sort_keys_template sort_keys_sorted_template)

text \<open>
  C9, as the code has it, for a path with a recognized extension at which nothing
  exists. When \<^verbatim>\<open>os.makedirs\<close> of the directory name raises nothing and the file can
  be opened for writing, \<^verbatim>\<open>load_mapping\<close> writes the template to the path, reports the
  warning and returns what it reads back; that document equals the template as a Python
  value (the JSON one also in the order of its keys, the YAML one with its keys sorted).
  When \<^verbatim>\<open>os.makedirs\<close> raises, \<^verbatim>\<open>load_mapping\<close> raises the same error and no file
  is written; when the file cannot be opened for writing, it raises an IOError that
  names the path.
\<close>

theorem load_mapping_creates_template:
  assumes ext: "check_config_type (yaml_available w) config_path = Inr file_type"
    and absent: "\<not> os_path_exists (files w) config_path"
  shows "(os_makedirs (os_path_dirname config_path) (files w) = (None, fs1)
          \<longrightarrow> write_file config_path (dumped file_type MAPPING_CONFIG_TEMPLATE) fs1 = (None, fs2)
          \<longrightarrow> load_mapping config_path w =
                (Inr (dumped file_type MAPPING_CONFIG_TEMPLATE),
                 w\<lparr>files := fs2,
                   screen := screen w @
                     [ReportWarning (''Mapping file not found. Created a template mapping file at: ''
                                     @ config_path)]\<rparr>)
              \<and> read_file config_path fs2 = Inr (dumped file_type MAPPING_CONFIG_TEMPLATE))
       \<and> (os_makedirs (os_path_dirname config_path) (files w) = (Some e, fs1)
          \<longrightarrow> load_mapping config_path w = (Inl e, w\<lparr>files := fs1\<rparr>))
       \<and> (os_makedirs (os_path_dirname config_path) (files w) = (None, fs1)
          \<longrightarrow> write_file config_path (dumped file_type MAPPING_CONFIG_TEMPLATE) fs1 = (Some e, fs2)
          \<longrightarrow> load_mapping config_path w =
                (Inl (IOError (''Can't write mapping file: '' @ config_path)), w\<lparr>files := fs2\<rparr>))
       \<and> py_eq (dumped file_type MAPPING_CONFIG_TEMPLATE) MAPPING_CONFIG_TEMPLATE
       \<and> dumped JSON MAPPING_CONFIG_TEMPLATE = MAPPING_CONFIG_TEMPLATE"
proof (intro conjI impI)
  let ?doc = "dumped file_type MAPPING_CONFIG_TEMPLATE"
  let ?warned = "w\<lparr>files := fs2,
                   screen := screen w @
                     [ReportWarning (''Mapping file not found. Created a template mapping file at: ''
                                     @ config_path)]\<rparr>"
  {
    assume made: "os_makedirs (os_path_dirname config_path) (files w) = (None, fs1)"
      and written: "write_file config_path ?doc fs1 = (None, fs2)"
    from written show reread: "read_file config_path fs2 = Inr ?doc"
      by (rule read_after_write)
    have "write_mapping_template config_path w = (None, ?warned)"
      unfolding write_mapping_template_def made save_file_def using ext written by simp
    with absent ext reread show "load_mapping config_path w = (Inr ?doc, ?warned)"
      unfolding load_mapping_def by (simp add: load_file_def)
  }
  {
    assume "os_makedirs (os_path_dirname config_path) (files w) = (Some e, fs1)"
    then have "write_mapping_template config_path w = (Some e, w\<lparr>files := fs1\<rparr>)"
      unfolding write_mapping_template_def by simp
    with absent show "load_mapping config_path w = (Inl e, w\<lparr>files := fs1\<rparr>)"
      unfolding load_mapping_def by simp
  }
  {
    assume made: "os_makedirs (os_path_dirname config_path) (files w) = (None, fs1)"
      and failed: "write_file config_path ?doc fs1 = (Some e, fs2)"
    have "write_mapping_template config_path w =
            (Some (IOError (''Can't write mapping file: '' @ config_path)), w\<lparr>files := fs2\<rparr>)"
      unfolding write_mapping_template_def made save_file_def using ext failed by simp
    with absent show "load_mapping config_path w =
            (Inl (IOError (''Can't write mapping file: '' @ config_path)), w\<lparr>files := fs2\<rparr>)"
      unfolding load_mapping_def by simp
  }
  show "py_eq ?doc MAPPING_CONFIG_TEMPLATE"
    by (rule template_round_trip)
  show "dumped JSON MAPPING_CONFIG_TEMPLATE = MAPPING_CONFIG_TEMPLATE"
    by (simp add: dumped_def)
qed

lemma json_path: "check_config_type False ''/media/first/map.json'' = Inr JSON"
  by code_simp

lemma yml_path: "check_config_type True ''/media/first/Map.YML'' = Inr YAML"
  by code_simp

lemma map_json_absent: "\<not> os_path_exists media_files ''/media/first/map.json''"
  by (simp add: os_path_exists_def os_stat_def start_dir_def isabs_def node_in_def node_at_def
      media_files_def)

lemma map_yml_absent: "\<not> os_path_exists media_files ''/media/first/Map.YML''"
  by (simp add: os_path_exists_def os_stat_def start_dir_def isabs_def node_in_def node_at_def
      media_files_def)

lemma map_json_written:
  "write_file ''/media/first/map.json'' doc media_files =
     (None, media_files\<lparr>nodes := (nodes media_files)([''media'', ''first'', ''map.json''] \<mapsto> File (Some doc))\<rparr>)"
  by (simp add: write_file_def strip_trailing_def start_dir_def isabs_def node_in_def node_at_def
      media_files_def)

lemma map_yml_written:
  "write_file ''/media/first/Map.YML'' doc media_files =
     (None, media_files\<lparr>nodes := (nodes media_files)([''media'', ''first'', ''Map.YML''] \<mapsto> File (Some doc))\<rparr>)"
  by (simp add: write_file_def strip_trailing_def start_dir_def isabs_def node_in_def node_at_def
      media_files_def)

theorem load_mapping_creates_template_witness:
  "fst (load_mapping ''/media/first/map.json'' example_host) = Inr MAPPING_CONFIG_TEMPLATE
   \<and> fst (load_mapping ''/media/first/Map.YML'' yaml_host) = Inr sorted_template"
proof -
  have j1: "check_config_type (yaml_available example_host) ''/media/first/map.json'' = Inr JSON"
    using json_path by (simp add: example_host_def)
  have j2: "\<not> os_path_exists (files example_host) ''/media/first/map.json''"
    using map_json_absent by (simp add: example_host_def)
  have j3: "os_makedirs (os_path_dirname ''/media/first/map.json'') (files example_host) = (None, media_files)"
    using media_first_present by (simp add: os_path_dirname_def example_host_def)
  have y1: "check_config_type (yaml_available yaml_host) ''/media/first/Map.YML'' = Inr YAML"
    using yml_path by (simp add: yaml_host_def)
  have y2: "\<not> os_path_exists (files yaml_host) ''/media/first/Map.YML''"
    using map_yml_absent by (simp add: yaml_host_def example_host_def)
  have y3: "os_makedirs (os_path_dirname ''/media/first/Map.YML'') (files yaml_host) = (None, media_files)"
    using media_first_present by (simp add: os_path_dirname_def yaml_host_def example_host_def)
  note j = load_mapping_creates_template [OF j1 j2, THEN conjunct1, rule_format, OF j3 map_json_written]
  note y = load_mapping_creates_template [OF y1 y2, THEN conjunct1, rule_format, OF y3 map_yml_written]
  from j y show ?thesis
    by (simp add: dumped_def sort_keys_template)
qed

text \<open>
  Where a regular file stands in the place of the directory, \<^verbatim>\<open>os.makedirs\<close> raises
  and no template is written or loaded.
\<close>

theorem load_mapping_blocked:
  "check_config_type (yaml_available blocked_host) ''/media/map.json'' = Inr JSON
   \<and> \<not> os_path_exists (files blocked_host) ''/media/map.json''
   \<and> fst (load_mapping ''/media/map.json'' blocked_host) = Inl FileExistsError"
proof -
  have ext: "check_config_type (yaml_available blocked_host) ''/media/map.json'' = Inr JSON"
    by code_simp
  have absent: "\<not> os_path_exists (files blocked_host) ''/media/map.json''"
    by (simp add: os_path_exists_def os_stat_def start_dir_def isabs_def node_in_def node_at_def
        blocked_host_def)
  have dir: "os_path_dirname ''/media/map.json'' = ''/media''"
    by (simp add: os_path_dirname_def)
  have "list_all proper [''media'']" by (simp add: proper_def)
  from os_makedirs_render [OF this, of "files blocked_host"]
  have mk: "fst (os_makedirs ''/media'' (files blocked_host)) = Some FileExistsError"
    by (simp add: render_def ancestors_def upt_rec blocked_host_def)
  then obtain fs1 where mk': "os_makedirs ''/media'' (files blocked_host) = (Some FileExistsError, fs1)"
    by (cases "os_makedirs ''/media'' (files blocked_host)") simp
  have "fst (load_mapping ''/media/map.json'' blocked_host) = Inl FileExistsError"
    unfolding load_mapping_def write_mapping_template_def dir using absent mk' by simp
  with ext absent show ?thesis by simp
qed

text \<open>
  A name that is not normalised can pass \<^verbatim>\<open>os.makedirs\<close> and still not be writable:
  \<^verbatim>\<open>/x/../d/m.json\<close> does not exist while \<^verbatim>\<open>/x\<close> is missing; \<^verbatim>\<open>os.makedirs\<close> makes
  \<^verbatim>\<open>/x\<close>, and then the name leads to the directory \<^verbatim>\<open>/d/m.json\<close>.
\<close>

lemma detour_makedirs:
  "os_makedirs ''/x/../d'' detour_files =
     (None, detour_files\<lparr>nodes := (nodes detour_files)([''x''] \<mapsto> Dir)\<rparr>)"
proof -
  let ?fs1 = "detour_files\<lparr>nodes := (nodes detour_files)([''x''] \<mapsto> Dir)\<rparr>"
  have "list_all proper [''x'']" by (simp add: proper_def)
  from os_makedirs_render [OF this, of detour_files]
  have x: "os_makedirs ''/x'' detour_files = (None, ?fs1)"
    by (simp add: render_def ancestors_def upt_rec detour_files_def)
  have h1: "makedirs_head ''/x/..'' = ''/x''" and t1: "makedirs_tail ''/x/..'' = ''..''"
    by (simp_all add: makedirs_head_def makedirs_tail_def os_path_dirname_def os_path_basename_def)
  have h2: "makedirs_head ''/x/../d'' = ''/x/..''" and t2: "makedirs_tail ''/x/../d'' = ''d''"
    by (simp_all add: makedirs_head_def makedirs_tail_def os_path_dirname_def os_path_basename_def)
  have e1: "\<not> os_path_exists detour_files ''/x''"
    by (simp add: os_path_exists_def os_stat_def start_dir_def isabs_def node_in_def node_at_def
        detour_files_def)
  have e2: "\<not> os_path_exists detour_files ''/x/..''"
    by (simp add: os_path_exists_def os_stat_def start_dir_def isabs_def node_in_def node_at_def
        detour_files_def)
  have m1: "mkdir_exist_ok ''/x/..'' ?fs1 = (None, ?fs1)"
    by (simp add: mkdir_exist_ok_def os_mkdir_def strip_trailing_def os_path_isdir_def os_stat_def
        start_dir_def isabs_def node_in_def node_at_def detour_files_def)
  have m2: "mkdir_exist_ok ''/x/../d'' ?fs1 = (None, ?fs1)"
    by (simp add: mkdir_exist_ok_def os_mkdir_def strip_trailing_def os_path_isdir_def os_stat_def
        start_dir_def isabs_def node_in_def node_at_def detour_files_def)
  have up: "os_makedirs ''/x/..'' detour_files = (None, ?fs1)"
    by (subst os_makedirs.simps) (simp add: h1 t1 e1 x m1)
  show ?thesis
    by (subst os_makedirs.simps) (simp add: h2 t2 e2 up m2)
qed

lemma load_mapping_write_refused:
  "check_config_type (yaml_available detour_host) ''/x/../d/m.json'' = Inr JSON
   \<and> \<not> os_path_exists (files detour_host) ''/x/../d/m.json''
   \<and> fst (os_makedirs (os_path_dirname ''/x/../d/m.json'') (files detour_host)) = None
   \<and> fst (load_mapping ''/x/../d/m.json'' detour_host) =
       Inl (IOError ''Can't write mapping file: /x/../d/m.json'')"
proof -
  let ?fs1 = "detour_files\<lparr>nodes := (nodes detour_files)([''x''] \<mapsto> Dir)\<rparr>"
  have ext: "check_config_type (yaml_available detour_host) ''/x/../d/m.json'' = Inr JSON"
    by code_simp
  have absent: "\<not> os_path_exists (files detour_host) ''/x/../d/m.json''"
    by (simp add: os_path_exists_def os_stat_def start_dir_def isabs_def node_in_def node_at_def
        detour_host_def detour_files_def)
  have dir: "os_path_dirname ''/x/../d/m.json'' = ''/x/../d''"
    by (simp add: os_path_dirname_def)
  have files: "files detour_host = detour_files"
    by (simp add: detour_host_def)
  have refused: "write_file ''/x/../d/m.json'' doc ?fs1 = (Some IsADirectoryError, ?fs1)" for doc
    by (simp add: write_file_def strip_trailing_def start_dir_def isabs_def node_in_def node_at_def
        detour_files_def)
  have "fst (load_mapping ''/x/../d/m.json'' detour_host) =
          Inl (IOError ''Can't write mapping file: /x/../d/m.json'')"
    unfolding load_mapping_def write_mapping_template_def dir files detour_makedirs save_file_def
    using absent ext refused by (simp add: files)
  with ext absent show ?thesis
    by (simp add: dir files detour_makedirs)
qed

text \<open>
  A bare file name has the empty directory name, for which \<^verbatim>\<open>os.makedirs\<close> raises
  FileNotFoundError whatever the tree holds.
\<close>

lemma makedirs_of_bare_name:
  "CHR ''/'' \<notin> set name \<Longrightarrow> os_makedirs (os_path_dirname name) fsys = (Some FileNotFoundError, fsys)"
proof -
  assume "CHR ''/'' \<notin> set name"
  then have "os_path_dirname name = []"
    by (auto simp: os_path_dirname_def Let_def)
  moreover have "os_makedirs [] fsys = (Some FileNotFoundError, fsys)"
    by (subst os_makedirs.simps)
       (simp add: makedirs_tail_def os_path_basename_def os_path_dirname_def mkdir_exist_ok_def
          os_mkdir_def os_path_isdir_def os_stat_def)
  ultimately show ?thesis by simp
qed

text \<open>
  Below a regular file \<^verbatim>\<open>..\<close> leads nowhere: the name does not exist and
  \<^verbatim>\<open>os.makedirs\<close> raises NotADirectoryError.
\<close>

lemma makedirs_through_file:
  "\<not> os_path_exists sub_file_files ''sub/../map.json''
   \<and> os_makedirs (os_path_dirname ''sub/../map.json'') sub_file_files
       = (Some NotADirectoryError, sub_file_files)"
proof -
  have dir: "os_path_dirname ''sub/../map.json'' = ''sub/..''"
    by (simp add: os_path_dirname_def)
  have home: "resolve ''/work'' [] = [''work'']"
    by (simp add: resolve_def isabs_def norm_step_def)
  have absent: "\<not> os_path_exists sub_file_files ''sub/../map.json''"
    by (simp add: os_path_exists_def os_stat_def start_dir_def isabs_def node_in_def node_at_def
        sub_file_files_def home)
  have h: "makedirs_head ''sub/..'' = ''sub''" and t: "makedirs_tail ''sub/..'' = ''..''"
    by (simp_all add: makedirs_head_def makedirs_tail_def os_path_dirname_def os_path_basename_def)
  have e: "os_path_exists sub_file_files ''sub''"
    by (simp add: os_path_exists_def os_stat_def start_dir_def isabs_def node_in_def node_at_def
        sub_file_files_def home)
  have m: "mkdir_exist_ok ''sub/..'' sub_file_files = (Some NotADirectoryError, sub_file_files)"
    by (simp add: mkdir_exist_ok_def os_mkdir_def strip_trailing_def os_path_isdir_def os_stat_def
        start_dir_def isabs_def node_in_def node_at_def sub_file_files_def home)
  have "os_makedirs ''sub/..'' sub_file_files = (Some NotADirectoryError, sub_file_files)"
    by (subst os_makedirs.simps) (simp add: h t e m)
  with absent dir show ?thesis by simp
qed

end
